theory Spec2Isabelle
  imports Complex_Main "HOL-Library.AList"
begin

section \<open>The internal link relevance engine\<close>

text \<open>
  A shallow embedding of the TF-IDF internal linking engine (the edge function
  \<^verbatim>\<open>internal-linking-engine\<close>): tokenizer, TF and IDF maps, the scorer, the anchor
  generator, the link selector, the inserter and the request handler.

  Conventions of the embedding.
  \<^item> A JavaScript string is a \<^typ>\<open>string\<close>; a \<^typ>\<open>char\<close> stands for a UTF-16 code unit
    below \<open>0x100\<close> (ASCII and Latin-1). Code units above that range are outside the model.
  \<^item> A JavaScript \<open>number\<close> is a \<^typ>\<open>real\<close>; a number that is the length of an array,
    an index into one or a counter that starts at 0 and is only incremented is a
    \<^typ>\<open>nat\<close>. The quotient that \<open>calculateTF\<close> stores is rounded to the nearest double
    (\<open>roundDouble\<close>); the products and sums of the scorer and the logarithm of
    \<open>calculateIDF\<close> are exact.
  \<^item> A JavaScript \<open>Map\<close> is an association list in insertion order;
    \<^const>\<open>AList.update\<close> is \<open>Map.set\<close> (an existing key keeps its place, a new key goes
    to the end) and \<^const>\<open>map_of\<close> is \<open>Map.get\<close>.
\<close>

subsection \<open>Characters and strings\<close>

definition toLowerChar :: "char \<Rightarrow> char" where
  \<comment> \<open>\<open>String.prototype.toLowerCase\<close> on one code unit below \<open>0x100\<close>: \<open>A-Z\<close> and the
      Latin-1 capitals \<open>0xC0-0xDE\<close> (but not the multiplication sign \<open>0xD7\<close>) move up by 32.\<close>
  "toLowerChar c = (let n = (of_char c :: nat) in
     if (65 \<le> n \<and> n \<le> 90) \<or> (192 \<le> n \<and> n \<le> 222 \<and> n \<noteq> 215)
     then char_of (n + 32) else c)"

definition toLowerCase :: "string \<Rightarrow> string" where
  "toLowerCase s = map toLowerChar s"

subsection \<open>Tokenizer\<close>

definition isWordChar :: "char \<Rightarrow> bool" where
  \<comment> \<open>The class \<open>\w\<close>: \<open>0-9\<close>, \<open>A-Z\<close>, \<open>_\<close>, \<open>a-z\<close>.\<close>
  "isWordChar c = (let n = (of_char c :: nat) in
     (48 \<le> n \<and> n \<le> 57) \<or> (65 \<le> n \<and> n \<le> 90) \<or> n = 95 \<or> (97 \<le> n \<and> n \<le> 122))"

definition isSpaceChar :: "char \<Rightarrow> bool" where
  \<comment> \<open>The class \<open>\s\<close> below \<open>0x100\<close>: tab, line feed, vertical tab, form feed, carriage
      return, space and the no-break space.\<close>
  "isSpaceChar c = (let n = (of_char c :: nat) in (9 \<le> n \<and> n \<le> 13) \<or> n = 32 \<or> n = 160)"

function removeTags :: "string \<Rightarrow> string" where
  \<comment> \<open>\<open>.replace(/<[^>]*>/g, ' ')\<close>: a \<open><\<close> with a \<open>>\<close> somewhere after it matches up to the
      first such \<open>>\<close>; the scan goes on behind the match.\<close>
  "removeTags [] = []"
| "removeTags (c # cs) =
     (if c = CHR ''<'' \<and> CHR ''>'' \<in> set cs
      then CHR '' '' # removeTags (tl (dropWhile (\<lambda>x. x \<noteq> CHR ''>'') cs))
      else c # removeTags cs)"
  by pat_completeness auto
termination
proof (relation "measure length")
  fix c :: char and cs :: string
  have "length (tl (dropWhile (\<lambda>x. x \<noteq> CHR ''>'') cs)) \<le> length cs"
    using length_dropWhile_le [of "\<lambda>x. x \<noteq> CHR ''>''" cs] by simp
  then show "(tl (dropWhile (\<lambda>x. x \<noteq> CHR ''>'') cs), c # cs) \<in> measure length"
    by simp
qed simp_all

definition removePunctuation :: "string \<Rightarrow> string" where
  \<comment> \<open>\<open>.replace(/[^\w\s]/g, ' ')\<close>\<close>
  "removePunctuation s = map (\<lambda>c. if isWordChar c \<or> isSpaceChar c then c else CHR '' '') s"

function splitWhitespace :: "string \<Rightarrow> string list" where
  \<comment> \<open>\<open>.split(/\s+/)\<close>: the pieces between maximal runs of white space; a run at the start
      or the end leaves an empty piece there, and the empty string gives one empty piece.\<close>
  "splitWhitespace s =
     (let word = takeWhile (\<lambda>c. \<not> isSpaceChar c) s;
          rest = dropWhile (\<lambda>c. \<not> isSpaceChar c) s
      in if rest = [] then [word]
         else word # splitWhitespace (dropWhile isSpaceChar rest))"
  by pat_completeness auto
termination
proof (relation "measure length")
  fix s word rest :: string
  assume rest: "rest = dropWhile (\<lambda>c. \<not> isSpaceChar c) s" and ne: "rest \<noteq> []"
  then have "isSpaceChar (hd rest)"
    using hd_dropWhile [of "\<lambda>c. \<not> isSpaceChar c" s] by simp
  with ne have "length (dropWhile isSpaceChar rest) < length rest"
    by (cases rest) (simp_all add: le_imp_less_Suc length_dropWhile_le)
  moreover have "length rest \<le> length s"
    using rest by (simp add: length_dropWhile_le)
  ultimately show "(dropWhile isSpaceChar rest, s) \<in> measure length"
    by simp
qed simp

declare splitWhitespace.simps [simp del]

definition STOP_WORDS :: "string set" where
  "STOP_WORDS = set [
    ''the'', ''a'', ''an'', ''and'', ''or'', ''but'', ''in'', ''on'', ''at'', ''to'', ''for'', ''of'', ''with'',
    ''by'', ''from'', ''as'', ''is'', ''was'', ''are'', ''were'', ''been'', ''be'', ''have'', ''has'', ''had'',
    ''do'', ''does'', ''did'', ''will'', ''would'', ''could'', ''should'', ''may'', ''might'', ''must'',
    ''shall'', ''can'', ''this'', ''that'', ''these'', ''those'', ''it'', ''its'', ''they'', ''them'',
    ''their'', ''what'', ''which'', ''who'', ''whom'', ''whose'', ''when'', ''where'', ''why'', ''how'',
    ''all'', ''each'', ''every'', ''both'', ''few'', ''more'', ''most'', ''other'', ''some'', ''such'',
    ''no'', ''nor'', ''not'', ''only'', ''own'', ''same'', ''so'', ''than'', ''too'', ''very'', ''just'',
    ''your'', ''you'', ''our'', ''we'', ''my'', ''i'', ''me'', ''he'', ''she'', ''him'', ''her'', ''his'']"

definition tokenize :: "string \<Rightarrow> string list" where
  "tokenize text =
     filter (\<lambda>word. word \<notin> STOP_WORDS)
       (filter (\<lambda>word. length word > 2)
         (splitWhitespace (removePunctuation (removeTags (toLowerCase text)))))"

fun joinWith :: "string \<Rightarrow> string list \<Rightarrow> string" where
  \<comment> \<open>\<open>Array.prototype.join\<close>\<close>
  "joinWith sep [] = []"
| "joinWith sep [x] = x"
| "joinWith sep (x # y # ys) = x @ sep @ joinWith sep (y # ys)"

subsection \<open>Scored links\<close>

datatype position = Early | Middle | Late

record ScoredLink =
  url :: string
  title :: string
  anchor :: string
  score :: real
  matchedTerms :: "string list"
  position :: position

subsection \<open>TF-IDF implementation: term and document frequencies\<close>

definition getOrZero :: "(string \<times> 'a::zero) list \<Rightarrow> string \<Rightarrow> 'a" where
  \<comment> \<open>\<open>m.get(key) || 0\<close>\<close>
  "getOrZero m key = (case map_of m key of None \<Rightarrow> 0 | Some v \<Rightarrow> v)"

definition roundHalfEven :: "real \<Rightarrow> int" where
  \<comment> \<open>The nearest whole number; of two equally near ones the even one.\<close>
  "roundHalfEven y =
     (let f = \<lfloor>y\<rfloor>; d = y - of_int f
      in if d < 1 / 2 then f else if 1 / 2 < d then f + 1 else if even f then f else f + 1)"

definition roundDouble :: "real \<Rightarrow> real" where
  \<comment> \<open>The IEEE 754 double nearest to \<open>x\<close> (round to nearest, ties to even), for a
      magnitude in the normal range \<open>2^-1022 \<le> |x| < 2^1024\<close>: with \<open>2^e \<le> |x| < 2^(e+1)\<close> the
      doubles around \<open>x\<close> are the multiples of \<open>2^(e-52)\<close>.\<close>
  "roundDouble x =
     (if x = 0 then 0
      else let e = \<lfloor>log 2 \<bar>x\<bar>\<rfloor>;
               ulp = 2 powr (of_int (e - 52))
           in sgn x * of_int (roundHalfEven (\<bar>x\<bar> / ulp)) * ulp)"

definition countTokens :: "string list \<Rightarrow> (string \<times> real) list" where
  \<comment> \<open>First loop of \<open>calculateTF\<close>: \<open>tf.set(token, (tf.get(token) || 0) + 1)\<close>.\<close>
  "countTokens tokens =
     fold (\<lambda>token tf. AList.update token (getOrZero tf token + 1) tf) tokens []"

definition calculateTF :: "string list \<Rightarrow> (string \<times> real) list" where
  \<comment> \<open>Second loop: every count is overwritten by \<open>count / total\<close>, a double. The count
      is at least 1 and the total is the length of an array (below \<open>2^32\<close>), so the quotient
      lies in the normal range. For no tokens the map is empty and nothing is divided.\<close>
  "calculateTF tokens =
     (let total = length tokens
      in map (\<lambda>(term, count). (term, roundDouble (count / real total))) (countTokens tokens))"

definition uniqueTerms :: "string list \<Rightarrow> string list" where
  \<comment> \<open>\<open>new Set(doc)\<close>, in its iteration order: the first occurrence of every term.\<close>
  "uniqueTerms doc = rev (remdups (rev doc))"

definition countDocuments :: "string list list \<Rightarrow> (string \<times> nat) list" where
  \<comment> \<open>The map \<open>df\<close> of \<open>calculateIDF\<close>: one increment per document and unique term.\<close>
  "countDocuments documents =
     fold (\<lambda>doc df. fold (\<lambda>term df. AList.update term (getOrZero df term + 1) df)
                       (uniqueTerms doc) df)
          documents []"

definition calculateIDF :: "string list list \<Rightarrow> (string \<times> real) list" where
  "calculateIDF documents =
     (let N = length documents
      in map (\<lambda>(term, count). (term, ln ((real N + 1) / (real count + 1)) + 1))
             (countDocuments documents))"

definition documentFrequency :: "string list list \<Rightarrow> string \<Rightarrow> nat" where
  \<comment> \<open>The document frequency of a term as the glossary has it: the number of documents
      of the corpus that contain the term at least once.\<close>
  "documentFrequency documents term = length (filter (\<lambda>doc. term \<in> set doc) documents)"

subsection \<open>Link placement optimizer: \<open>determineLinkPosition\<close>\<close>

definition determineLinkPosition :: "nat \<Rightarrow> nat \<Rightarrow> position" where
  \<comment> \<open>\<open>index / total\<close> against \<open>0.33\<close> and \<open>0.66\<close>. For \<open>total = 0\<close> (here \<open>n\<close>) the quotient is
      \<open>NaN\<close> or \<open>Infinity\<close>, both comparisons are false and the result is \<open>late\<close>.\<close>
  "determineLinkPosition index n =
     (if n = 0 then Late
      else let pos = real index / real n
           in if pos < 33 / 100 then Early
              else if pos < 66 / 100 then Middle
              else Late)"

subsection \<open>Link placement optimizer: \<open>selectOptimalLinks\<close>\<close>

record positionCounts =
  early :: nat
  middle :: nat
  late :: nat

fun countOf :: "positionCounts \<Rightarrow> position \<Rightarrow> nat" where
  \<comment> \<open>\<open>positionCounts[link.position]\<close>\<close>
  "countOf pc Early = early pc"
| "countOf pc Middle = middle pc"
| "countOf pc Late = late pc"

fun increment :: "positionCounts \<Rightarrow> position \<Rightarrow> positionCounts" where
  \<comment> \<open>\<open>positionCounts[link.position]++\<close>\<close>
  "increment pc Early = pc\<lparr>early := early pc + 1\<rparr>"
| "increment pc Middle = pc\<lparr>middle := middle pc + 1\<rparr>"
| "increment pc Late = pc\<lparr>late := late pc + 1\<rparr>"

record selection =
  selected :: "ScoredLink list"
  usedAnchors :: "string set"
  counts :: positionCounts

definition maxPerPosition :: "real \<Rightarrow> int" where
  \<comment> \<open>\<open>Math.ceil(maxLinks / 3)\<close>\<close>
  "maxPerPosition maxLinks = \<lceil>maxLinks / 3\<rceil>"

fun selectLoop :: "real \<Rightarrow> ScoredLink list \<Rightarrow> selection \<Rightarrow> selection" where
  \<comment> \<open>The \<open>for (const link of sorted)\<close> loop: \<open>break\<close> returns the state, \<open>continue\<close>
      goes on with the rest. \<open>maxLinks\<close> is the number of the request body as it comes: the
      handler does not check it.\<close>
  "selectLoop maxLinks [] st = st"
| "selectLoop maxLinks (link # rest) st =
     (if real (length (selected st)) \<ge> maxLinks then st
      else let anchorLower = toLowerCase (anchor link) in
        if anchorLower \<in> usedAnchors st then selectLoop maxLinks rest st
        else if int (countOf (counts st) (position link)) \<ge> maxPerPosition maxLinks + 1
          then selectLoop maxLinks rest st
        else selectLoop maxLinks rest
          \<lparr>selected = selected st @ [link],
           usedAnchors = insert anchorLower (usedAnchors st),
           counts = increment (counts st) (position link)\<rparr>)"

definition sortByScoreDesc :: "ScoredLink list \<Rightarrow> ScoredLink list" where
  \<comment> \<open>\<open>[...scoredLinks].sort((a, b) => b.score - a.score)\<close>: a stable sort, highest
      score first.\<close>
  "sortByScoreDesc scoredLinks = sort_key (\<lambda>l. - score l) scoredLinks"

definition selectOptimalLinks :: "ScoredLink list \<Rightarrow> real \<Rightarrow> ScoredLink list" where
  "selectOptimalLinks scoredLinks maxLinks =
     selected (selectLoop maxLinks (sortByScoreDesc scoredLinks)
       \<lparr>selected = [], usedAnchors = {}, counts = \<lparr>early = 0, middle = 0, late = 0\<rparr>\<rparr>)"

definition inBucket :: "position \<Rightarrow> ScoredLink list \<Rightarrow> nat" where
  \<comment> \<open>The number of links of a list that carry a given position tag.\<close>
  "inBucket p ls = length (filter (\<lambda>l. position l = p) ls)"

definition anchorInv :: "selection \<Rightarrow> bool" where
  \<comment> \<open>What the loop keeps true of \<open>selected\<close> and \<open>usedAnchors\<close>, whatever \<open>maxLinks\<close> is.\<close>
  "anchorInv st \<longleftrightarrow>
     distinct (map (\<lambda>l. toLowerCase (anchor l)) (selected st)) \<and>
     usedAnchors st = set (map (\<lambda>l. toLowerCase (anchor l)) (selected st))"

definition capInv :: "real \<Rightarrow> selection \<Rightarrow> bool" where
  \<comment> \<open>What the loop keeps true of the counters when \<open>maxLinks\<close> is a whole number that is
      not negative.\<close>
  "capInv maxLinks st \<longleftrightarrow>
     early (counts st) = inBucket Early (selected st) \<and>
     middle (counts st) = inBucket Middle (selected st) \<and>
     late (counts st) = inBucket Late (selected st) \<and>
     int (early (counts st)) \<le> maxPerPosition maxLinks + 1 \<and>
     int (middle (counts st)) \<le> maxPerPosition maxLinks + 1 \<and>
     int (late (counts st)) \<le> maxPerPosition maxLinks + 1 \<and>
     real (length (selected st)) \<le> maxLinks"

subsection \<open>TF-IDF implementation: \<open>calculateTFIDF\<close>\<close>

definition idfOrOne :: "(string \<times> real) list \<Rightarrow> string \<Rightarrow> real" where
  \<comment> \<open>\<open>idf.get(term) || 1\<close>: a missing entry and the falsy value 0 both give 1.\<close>
  "idfOrOne idf term = (case map_of idf term of None \<Rightarrow> 1 | Some v \<Rightarrow> if v = 0 then 1 else v)"

definition overlapStep ::
  "(string \<times> real) list \<Rightarrow> (string \<times> real) list \<Rightarrow> string \<times> real \<Rightarrow> real \<times> string list
     \<Rightarrow> real \<times> string list" where
  \<comment> \<open>One round of the loop over \<open>contentTF\<close>, on the pair \<open>(score, matchedTerms)\<close>.\<close>
  "overlapStep candidateTF idf entry acc =
     (case map_of candidateTF (fst entry) of
        None \<Rightarrow> acc
      | Some candidateWeight \<Rightarrow>
          (let idfWeight = idfOrOne idf (fst entry)
           in (fst acc + snd entry * candidateWeight * idfWeight * idfWeight,
               snd acc @ [fst entry])))"

definition calculateTFIDF ::
  "string list \<Rightarrow> string list \<Rightarrow> (string \<times> real) list \<Rightarrow> real \<times> string list" where
  \<comment> \<open>Returns \<open>(score, matchedTerms)\<close>.\<close>
  "calculateTFIDF contentTokens candidateTokens idf =
     (let contentTF = calculateTF contentTokens;
          candidateTF = calculateTF candidateTokens
      in fold (overlapStep candidateTF idf) contentTF (0, []))"

subsection \<open>Anchor text generation\<close>

definition isLineTerminator :: "char \<Rightarrow> bool" where
  \<comment> \<open>The characters that \<open>.\<close> does not match, below \<open>0x100\<close>: line feed and carriage return.\<close>
  "isLineTerminator c = (let n = (of_char c :: nat) in n = 10 \<or> n = 13)"

definition isSeparator :: "char \<Rightarrow> bool" where
  \<comment> \<open>The class \<open>[-|\<dots>]\<close> of the site name suffix; its en dash and em dash lie above
      \<open>0x100\<close>.\<close>
  "isSeparator c = (c = CHR ''-'' \<or> c = CHR ''|'')"

definition suffixMatchesAt :: "string \<Rightarrow> bool" where
  \<comment> \<open>Whether \<open>/\s*[-|\<dots>]\s*.*$/\<close> matches the whole of the given rest of the title: white
      space, a separator, white space, and then no line terminator up to the end.\<close>
  "suffixMatchesAt s =
     (case dropWhile isSpaceChar s of
        [] \<Rightarrow> False
      | d # r \<Rightarrow> isSeparator d \<and> list_all (\<lambda>c. \<not> isLineTerminator c) (dropWhile isSpaceChar r))"

fun removeSiteSuffix :: "string \<Rightarrow> string" where
  \<comment> \<open>\<open>.replace(/\s*[-|\<dots>]\s*.*$/, '')\<close>: the leftmost match is cut off.\<close>
  "removeSiteSuffix [] = []"
| "removeSiteSuffix (c # cs) =
     (if suffixMatchesAt (c # cs) then [] else c # removeSiteSuffix cs)"

definition keepAnchorChars :: "string \<Rightarrow> string" where
  \<comment> \<open>\<open>.replace(/[^\w\s,:']/g, '')\<close>\<close>
  "keepAnchorChars s =
     filter (\<lambda>c. isWordChar c \<or> isSpaceChar c \<or> c = CHR '','' \<or> c = CHR '':'' \<or> c = CHR 0x27) s"

definition trim :: "string \<Rightarrow> string" where
  "trim s = rev (dropWhile isSpaceChar (rev (dropWhile isSpaceChar s)))"

fun splitOn :: "char \<Rightarrow> string \<Rightarrow> string list" where
  \<comment> \<open>\<open>.split(' ')\<close> for a one-character separator. The result is never empty, so the
      second case of the \<open>case\<close> is never taken.\<close>
  "splitOn sep [] = [[]]"
| "splitOn sep (c # cs) =
     (if c = sep then [] # splitOn sep cs
      else (case splitOn sep cs of w # ws \<Rightarrow> (c # w) # ws | [] \<Rightarrow> [[c]]))"

fun stringIncludes :: "string \<Rightarrow> string \<Rightarrow> bool" where
  \<comment> \<open>\<open>s.includes(sub)\<close>\<close>
  "stringIncludes [] sub = (sub = [])"
| "stringIncludes (c # cs) sub = (take (length sub) (c # cs) = sub \<or> stringIncludes cs sub)"

definition segmentScore :: "string list \<Rightarrow> string list \<Rightarrow> string \<Rightarrow> nat" where
  \<comment> \<open>2 for every matched term and 3 for every keyword word that the lower-cased segment
      includes.\<close>
  "segmentScore matched keywordWords segment =
     (let segmentLower = toLowerCase segment
      in 2 * length (filter (stringIncludes segmentLower) matched)
         + 3 * length (filter (stringIncludes segmentLower) keywordWords))"

definition segmentWindows :: "nat \<Rightarrow> (nat \<times> nat) list" where
  \<comment> \<open>The pairs \<open>(i, len)\<close> in the order of the two nested loops.\<close>
  "segmentWindows n =
     concat (map (\<lambda>i. map (\<lambda>len. (i, len)) (takeWhile (\<lambda>len. i + len \<le> n) [3, 4, 5, 6])) [0..<n])"

definition bestSegmentOf :: "string list \<Rightarrow> string list \<Rightarrow> string list \<Rightarrow> string \<times> nat" where
  \<comment> \<open>The pair \<open>(bestSegment, bestScore)\<close> after the loops.\<close>
  "bestSegmentOf ws matched keywordWords =
     fold (\<lambda>(i, len) (bestSegment, bestScore).
             let segment = joinWith '' '' (take len (drop i ws));
                 sc = segmentScore matched keywordWords segment
             in if sc > bestScore then (segment, sc) else (bestSegment, bestScore))
          (segmentWindows (length ws)) ([], 0)"

definition generateRichAnchor :: "string \<Rightarrow> string list \<Rightarrow> string \<Rightarrow> string" where
  "generateRichAnchor ttl matched targetKeyword =
     (let anchor0 = trim (keepAnchorChars (removeSiteSuffix ttl))
      in if length anchor0 > 50
         then (let ws = splitOn CHR '' '' anchor0;
                   keywordWords = splitOn CHR '' '' (toLowerCase targetKeyword);
                   best = bestSegmentOf ws matched keywordWords
               in if fst best \<noteq> [] \<and> snd best > 0 then fst best
                  else joinWith '' '' (take 6 ws))
         else anchor0)"

subsection \<open>Scoring the candidates\<close>

record LinkCandidate =
  candidateId :: string
  candidateUrl :: string
  slug :: string
  candidateTitle :: string
  categories :: "string list option"
  tags :: "string list option"
  post_type :: "string option"

definition orEmpty :: "string list option \<Rightarrow> string list" where
  \<comment> \<open>\<open>(c.categories || [])\<close>\<close>
  "orEmpty xs = (case xs of None \<Rightarrow> [] | Some ys \<Rightarrow> ys)"

definition candidateDocument :: "LinkCandidate \<Rightarrow> string list" where
  \<comment> \<open>The tokens of title, slug with its hyphens turned into spaces, categories and tags.\<close>
  "candidateDocument c =
     tokenize (candidateTitle c @ '' '' @ map (\<lambda>x. if x = CHR ''-'' then CHR '' '' else x) (slug c)
               @ '' '' @ joinWith '' '' (orEmpty (categories c))
               @ '' '' @ joinWith '' '' (orEmpty (tags c)))"

definition keywordBoost :: "string list \<Rightarrow> string list \<Rightarrow> real \<Rightarrow> real" where
  \<comment> \<open>One factor 1.5 for every keyword token that the candidate's tokens include.\<close>
  "keywordBoost keywordTokens candidateTokens sc =
     fold (\<lambda>kwToken boosted. if kwToken \<in> set candidateTokens then boosted * (3 / 2) else boosted)
          keywordTokens sc"

definition labelBoost :: "string \<Rightarrow> LinkCandidate \<Rightarrow> real \<Rightarrow> real" where
  \<comment> \<open>Factor 1.3 when a lower-cased category is a substring of the lower-cased keyword,
      then factor 1.2 when a lower-cased tag is.\<close>
  "labelBoost targetKeyword candidate sc =
     (let candidateCategories = map toLowerCase (orEmpty (categories candidate));
          candidateTags = map toLowerCase (orEmpty (tags candidate));
          keywordLower = toLowerCase targetKeyword;
          b1 = (if list_ex (stringIncludes keywordLower) candidateCategories then sc * (13 / 10) else sc)
      in if list_ex (stringIncludes keywordLower) candidateTags then b1 * (6 / 5) else b1)"

definition boostedScoreOf ::
  "string list \<Rightarrow> string list \<Rightarrow> string \<Rightarrow> (string \<times> real) list \<Rightarrow> LinkCandidate \<Rightarrow> real" where
  \<comment> \<open>\<open>boostedScore\<close> of one candidate.\<close>
  "boostedScoreOf contentTokens keywordTokens targetKeyword idf candidate =
     (let candidateTokens = candidateDocument candidate
      in labelBoost targetKeyword candidate
           (keywordBoost keywordTokens candidateTokens
              (fst (calculateTFIDF contentTokens candidateTokens idf))))"

definition scoredLinkOf ::
  "string list \<Rightarrow> string list \<Rightarrow> string \<Rightarrow> (string \<times> real) list \<Rightarrow> nat \<Rightarrow> nat \<Rightarrow> LinkCandidate
     \<Rightarrow> ScoredLink" where
  \<comment> \<open>The object pushed for candidate \<open>i\<close> of \<open>n\<close>.\<close>
  "scoredLinkOf contentTokens keywordTokens targetKeyword idf i n candidate =
     (let matched = snd (calculateTFIDF contentTokens (candidateDocument candidate) idf)
      in \<lparr>url = candidateUrl candidate,
          title = candidateTitle candidate,
          anchor = generateRichAnchor (candidateTitle candidate) matched targetKeyword,
          score = boostedScoreOf contentTokens keywordTokens targetKeyword idf candidate,
          matchedTerms = matched,
          position = determineLinkPosition i n\<rparr>)"

definition corpusIDF :: "string \<Rightarrow> LinkCandidate list \<Rightarrow> (string \<times> real) list" where
  \<comment> \<open>\<open>calculateIDF([contentTokens, ...candidateDocuments])\<close>\<close>
  "corpusIDF content candidates = calculateIDF (tokenize content # map candidateDocument candidates)"

definition scoreLinks :: "string \<Rightarrow> string \<Rightarrow> LinkCandidate list \<Rightarrow> ScoredLink list" where
  \<comment> \<open>The scoring loop of the handler: candidate \<open>i\<close> is pushed onto \<open>scoredLinks\<close> when
      its boosted score is above \<open>0.001\<close>.\<close>
  "scoreLinks content targetKeyword candidates =
     (let contentTokens = tokenize content;
          keywordTokens = tokenize targetKeyword;
          idf = corpusIDF content candidates
      in fold (\<lambda>i scoredLinks.
                 let candidate = candidates ! i
                 in if boostedScoreOf contentTokens keywordTokens targetKeyword idf candidate > 1 / 1000
                    then scoredLinks @ [scoredLinkOf contentTokens keywordTokens targetKeyword idf
                                          i (length candidates) candidate]
                    else scoredLinks)
              [0..<length candidates] [])"

subsection \<open>Content insertion\<close>

definition toUpperChar :: "char \<Rightarrow> char" where
  \<comment> \<open>The canonical form of a code unit below \<open>0x100\<close> under the flag \<open>i\<close>: \<open>a-z\<close> and the
      Latin-1 small letters \<open>0xE0-0xFE\<close> (but not the division sign \<open>0xF7\<close>) move down
      by 32.\<close>
  "toUpperChar c = (let n = (of_char c :: nat) in
     if (97 \<le> n \<and> n \<le> 122) \<or> (224 \<le> n \<and> n \<le> 254 \<and> n \<noteq> 247)
     then char_of (n - 32) else c)"

definition equalIgnoreCase :: "string \<Rightarrow> string \<Rightarrow> bool" where
  "equalIgnoreCase a b = (map toUpperChar a = map toUpperChar b)"

definition isCloseP :: "string \<Rightarrow> bool" where
  \<comment> \<open>\<open>/<\/p>/i\<close> at the head of the string.\<close>
  "isCloseP s = equalIgnoreCase (take 4 s) ''</p>''"

fun splitParagraphs :: "string \<Rightarrow> string list" where
  \<comment> \<open>\<open>.split(/<\/p>/i)\<close>. The result is never empty, so the second case of the \<open>case\<close>
      is never taken.\<close>
  "splitParagraphs [] = [[]]"
| "splitParagraphs (c # cs) =
     (if isCloseP (c # cs) then [] # splitParagraphs (drop 3 cs)
      else (case splitParagraphs cs of p # ps \<Rightarrow> (c # p) # ps | [] \<Rightarrow> [[c]]))"

fun hrefAhead :: "string \<Rightarrow> bool" where
  \<comment> \<open>\<open>[^>]*href\<close> at the head of the string.\<close>
  "hrefAhead [] = False"
| "hrefAhead (c # cs) =
     (equalIgnoreCase (take 4 (c # cs)) ''href'' \<or> (c \<noteq> CHR ''>'' \<and> hrefAhead cs))"

fun hasLink :: "string \<Rightarrow> bool" where
  \<comment> \<open>\<open>/<a\s+[^>]*href/i.test(paragraph)\<close>\<close>
  "hasLink (c # a # w # rest) =
     ((c = CHR ''<'' \<and> toUpperChar a = CHR ''A'' \<and> isSpaceChar w \<and> hrefAhead rest)
      \<or> hasLink (a # w # rest))"
| "hasLink _ = False"

definition headIsWord :: "string \<Rightarrow> bool" where
  "headIsWord s = (case s of [] \<Rightarrow> False | c # _ \<Rightarrow> isWordChar c)"

definition matchWordHere :: "string \<Rightarrow> bool \<Rightarrow> string \<Rightarrow> bool" where
  \<comment> \<open>\<open>\bword\b\<close> under the flag \<open>i\<close> at the head of the string; \<open>before\<close> tells whether
      the character in front of it is a word character. A word boundary lies between a word
      character and a character (or an end of the input) that is none.\<close>
  "matchWordHere word before s =
     (let n = length word;
          matched = take n s;
          lastIsWord = (case rev matched of [] \<Rightarrow> before | c # _ \<Rightarrow> isWordChar c)
      in equalIgnoreCase matched word
         \<and> before \<noteq> headIsWord s
         \<and> lastIsWord \<noteq> headIsWord (drop n s))"

fun matchWordFrom :: "string \<Rightarrow> bool \<Rightarrow> string \<Rightarrow> bool" where
  "matchWordFrom word before [] = matchWordHere word before []"
| "matchWordFrom word before (c # cs) =
     (matchWordHere word before (c # cs) \<or> matchWordFrom word (isWordChar c) cs)"

definition wordRegexTest :: "string \<Rightarrow> string \<Rightarrow> bool" where
  \<comment> \<open>\<open>new RegExp(`\\b${word}\\b`, 'i').test(paragraph)\<close>, for a word without characters
      that are special in a regular expression; the words of an anchor that
      \<open>generateRichAnchor\<close> returns have none.\<close>
  "wordRegexTest word paragraph = matchWordFrom word False paragraph"

definition linkedWordRegexTest :: "string \<Rightarrow> string \<Rightarrow> bool" where
  \<comment> \<open>\<open>/<a[^>]*>[^<]*${word}/i.test(paragraph)\<close>. The pattern is a regular expression
      literal, where \<open>${word}\<close> is not a placeholder: \<open>$\<close> asserts the end of the input and
      the six characters \<open>{word}\<close> would have to follow it. It matches no string.\<close>
  "linkedWordRegexTest word paragraph = False"

definition naturalSpot :: "string list \<Rightarrow> string \<Rightarrow> bool" where
  \<comment> \<open>One round of the loop over the paragraphs of the range: the paragraph is not empty,
      holds no link, and one anchor word of length 4 or more passes the two tests.\<close>
  "naturalSpot anchorWords paragraph =
     (paragraph \<noteq> [] \<and> \<not> hasLink paragraph \<and>
      list_ex (\<lambda>word. \<not> length word < 4 \<and> wordRegexTest word paragraph
                      \<and> \<not> linkedWordRegexTest word paragraph) anchorWords)"

definition linkHtml :: "ScoredLink \<Rightarrow> string" where
  "linkHtml link =
     ''<a href='' @ [CHR 0x22] @ url link @ [CHR 0x22] @ '' class='' @ [CHR 0x22]
       @ ''wp-opt-internal'' @ [CHR 0x22] @ '' title='' @ [CHR 0x22] @ title link @ [CHR 0x22]
       @ ''>'' @ anchor link @ ''</a>''"

definition insertOne :: "nat \<Rightarrow> nat \<Rightarrow> ScoredLink \<Rightarrow> string list \<times> nat \<Rightarrow> string list \<times> nat" where
  \<comment> \<open>The body of the loop over the links of one position, on the pair
      \<open>(paragraphs, insertedCount)\<close>; the range is \<open>start \<le> p < stop\<close>.\<close>
  "insertOne start stop link st =
     (let paragraphs = fst st;
          insertedCount = snd st;
          anchorWords = splitOn CHR '' '' (toLowerCase (anchor link))
      in case find (\<lambda>p. naturalSpot anchorWords (paragraphs ! p)) [start..<stop] of
           Some p \<Rightarrow> (paragraphs[p := paragraphs ! p @ '' '' @ linkHtml link], insertedCount + 1)
         | None \<Rightarrow>
             if start < length paragraphs
             then (let targetIdx = min (start + (stop - start) div 2) (length paragraphs - 1)
                   in if paragraphs ! targetIdx \<noteq> [] \<and> \<not> hasLink (paragraphs ! targetIdx)
                      then (paragraphs[targetIdx := paragraphs ! targetIdx @ '' Read more: '' @ linkHtml link],
                            insertedCount + 1)
                      else (paragraphs, insertedCount))
             else (paragraphs, insertedCount))"

definition insertLinksIntoContent :: "string \<Rightarrow> ScoredLink list \<Rightarrow> string \<times> nat" where
  \<comment> \<open>Returns the new content together with \<open>insertedCount\<close>, the number that the function
      writes to the log.\<close>
  "insertLinksIntoContent content links =
     (let paragraphs = splitParagraphs content;
          totalParagraphs = length paragraphs;
          earlyLinks = filter (\<lambda>l. position l = Early) links;
          middleLinks = filter (\<lambda>l. position l = Middle) links;
          lateLinks = filter (\<lambda>l. position l = Late) links;
          linksByPosition = [earlyLinks, middleLinks, lateLinks];
          positionRanges = [(0, totalParagraphs div 3),
                            (totalParagraphs div 3, 2 * totalParagraphs div 3),
                            (2 * totalParagraphs div 3, totalParagraphs)];
          st = fold (\<lambda>(positionLinks, (start, stop)) st. fold (insertOne start stop) positionLinks st)
                    (zip linksByPosition positionRanges) (paragraphs, 0)
      in (joinWith ''</p>'' (fst st), snd st))"

subsection \<open>Main handler\<close>

record InternalLinkRequest =
  content :: string
  pageId :: string
  targetKeyword :: string
  maxLinks :: "real option"
  siteUrl :: string

record QueryResult =
  queryData :: "LinkCandidate list option"
  queryError :: bool

record ResponseLink =
  linkUrl :: string
  linkAnchor :: string
  linkTitle :: string
  linkScore :: real
  linkPosition :: position

record ResponseStats =
  candidatesAnalyzed :: nat
  linksInserted :: nat
  avgRelevanceScore :: real

record LinkResponse =
  success :: bool
  links :: "ResponseLink list"
  responseContent :: string
  stats :: "ResponseStats option"

datatype AppError = VALIDATION_ERROR | DB_ERROR

datatype HttpResponse = CorsPreflight | JsonResponse LinkResponse | ErrorResponse AppError

definition responseLink :: "ScoredLink \<Rightarrow> ResponseLink" where
  "responseLink l =
     \<lparr>linkUrl = url l, linkAnchor = anchor l, linkTitle = title l, linkScore = score l,
      linkPosition = position l\<rparr>"

definition serve ::
  "(InternalLinkRequest \<Rightarrow> string list \<Rightarrow> bool) \<Rightarrow> string \<Rightarrow> InternalLinkRequest \<Rightarrow> QueryResult
     \<Rightarrow> HttpResponse" where
  \<comment> \<open>The handler, from the request method, the parsed body and the result of the query
      for the candidate pages. \<open>validateRequired\<close> is imported from a module that is not part
      of the sources at hand; it is a parameter here that tells whether the check passes
      (otherwise it throws). A field \<open>stats\<close> that the response does not carry is \<open>None\<close>.\<close>
  "serve validateRequired method body query =
     (if method = ''OPTIONS'' then CorsPreflight
      else let maxLinks' = (case maxLinks body of None \<Rightarrow> 5 | Some k \<Rightarrow> k)
      in if \<not> validateRequired body [''content'', ''pageId'', ''targetKeyword'']
           then ErrorResponse VALIDATION_ERROR
         else if queryError query then ErrorResponse DB_ERROR
         else case queryData query of
           None \<Rightarrow> JsonResponse \<lparr>success = True, links = [], responseContent = content body,
                                 stats = None\<rparr>
         | Some candidates \<Rightarrow>
             if length candidates = 0
             then JsonResponse \<lparr>success = True, links = [], responseContent = content body,
                                 stats = None\<rparr>
             else (let scoredLinks = scoreLinks (content body) (targetKeyword body) candidates;
                       selectedLinks = selectOptimalLinks scoredLinks maxLinks';
                       enhancedContent = fst (insertLinksIntoContent (content body) selectedLinks)
                   in JsonResponse
                        \<lparr>success = True,
                         links = map responseLink selectedLinks,
                         responseContent = enhancedContent,
                         stats = Some
                           \<lparr>candidatesAnalyzed = length candidates,
                            linksInserted = length selectedLinks,
                            avgRelevanceScore =
                              sum_list (map score selectedLinks)
                                / real (if length selectedLinks = 0 then 1 else length selectedLinks)\<rparr>\<rparr>))"

subsection \<open>Example data\<close>


definition reactCandidate :: LinkCandidate where
  "reactCandidate = \<lparr>candidateId = ''1'', candidateUrl = ''https://example.com/react'',
     slug = ''react'', candidateTitle = ''React'',
     categories = None, tags = None, post_type = None\<rparr>"

definition linkedContent :: string where
  "linkedContent = ''react <a href=x>y</a>''"

definition reactLink :: ScoredLink where
  "reactLink = \<lparr>url = ''https://example.com/react'', title = ''React'', anchor = ''React'',
     score = 3 / 2, matchedTerms = [''react''], position = Early\<rparr>"

definition earlyLink :: ScoredLink where
  "earlyLink = \<lparr>url = ''https://example.com/a'', title = ''Alpha'', anchor = ''Alpha'',
     score = 3, matchedTerms = [''alpha''], position = Early\<rparr>"

definition middleLink :: ScoredLink where
  "middleLink = \<lparr>url = ''https://example.com/b'', title = ''Bravo'', anchor = ''Bravo'',
     score = 2, matchedTerms = [''bravo''], position = Middle\<rparr>"

definition lateLink :: ScoredLink where
  "lateLink = \<lparr>url = ''https://example.com/c'', title = ''Charlie'', anchor = ''Charlie'',
     score = 1, matchedTerms = [''charlie''], position = Late\<rparr>"

definition tenTokens :: "string list" where
  "tenTokens = [''alpha'', ''bravo'', ''charlie'', ''delta'', ''echo'', ''foxtrot'', ''golf'',
                ''hotel'', ''india'', ''juliet'']"

definition acceptAll :: "InternalLinkRequest \<Rightarrow> string list \<Rightarrow> bool" where
  \<comment> \<open>A \<open>validateRequired\<close> that lets every body pass.\<close>
  "acceptAll body required = True"

definition helloRequest :: InternalLinkRequest where
  "helloRequest = \<lparr>content = ''<p>Hello</p>'', pageId = ''42'', targetKeyword = ''react hooks'',
     maxLinks = Some 5, siteUrl = ''https://example.com''\<rparr>"

definition linkedRequest :: InternalLinkRequest where
  "linkedRequest = \<lparr>content = linkedContent, pageId = ''42'', targetKeyword = ''react'',
     maxLinks = None, siteUrl = ''https://example.com''\<rparr>"

section \<open>Properties of the tokenizer\<close>

lemma toLowerChar_idem: "toLowerChar (toLowerChar c) = toLowerChar c"
  by (auto simp: toLowerChar_def Let_def of_char_of)

lemma toLowerChar_space: "toLowerChar CHR '' '' = CHR '' ''"
  by (simp add: toLowerChar_def)

lemma isSpaceChar_space: "isSpaceChar CHR '' ''"
  by (simp add: isSpaceChar_def)

lemma isWordChar_not_lt: "isWordChar c \<Longrightarrow> c \<noteq> CHR ''<''"
  by (auto simp: isWordChar_def)

lemma isWordChar_not_space: "isWordChar c \<Longrightarrow> \<not> isSpaceChar c"
  by (auto simp: isWordChar_def isSpaceChar_def Let_def)

lemma set_tl_dropWhile:
  assumes "x \<in> set (tl (dropWhile P cs))"
  shows "x \<in> set cs"
proof -
  from assms have "x \<in> set (dropWhile P cs)"
    by (cases "dropWhile P cs") auto
  then show ?thesis
    by (rule set_dropWhileD)
qed

lemma set_removeTags: "set (removeTags s) \<subseteq> insert CHR '' '' (set s)"
proof (induction s rule: removeTags.induct)
  case 1
  then show ?case by simp
next
  case (2 c cs)
  have "set (tl (dropWhile (\<lambda>x. x \<noteq> CHR ''>'') cs)) \<subseteq> set cs"
    by (auto dest: set_tl_dropWhile)
  with 2 show ?case
    by (auto split: if_splits)
qed

lemma removeTags_no_lt: "CHR ''<'' \<notin> set s \<Longrightarrow> removeTags s = s"
  by (induction s) auto

lemma splitWhitespace_chars:
  "t \<in> set (splitWhitespace s) \<Longrightarrow> c \<in> set t \<Longrightarrow> c \<in> set s \<and> \<not> isSpaceChar c"
proof (induction s arbitrary: t rule: splitWhitespace.induct)
  case (1 s)
  let ?word = "takeWhile (\<lambda>c. \<not> isSpaceChar c) s"
  let ?rest = "dropWhile (\<lambda>c. \<not> isSpaceChar c) s"
  have word: "c \<in> set ?word \<Longrightarrow> c \<in> set s \<and> \<not> isSpaceChar c"
    by (auto dest: set_takeWhileD)
  show ?case
  proof (cases "?rest = []")
    case True
    with "1.prems" splitWhitespace.simps [of s] have "t = ?word"
      by (auto simp: Let_def split: if_splits)
    with "1.prems" word show ?thesis by simp
  next
    case False
    with "1.prems" splitWhitespace.simps [of s]
    have "t = ?word \<or> t \<in> set (splitWhitespace (dropWhile isSpaceChar ?rest))"
      by (auto simp: Let_def split: if_splits)
    then show ?thesis
    proof
      assume "t = ?word"
      with "1.prems" word show ?thesis by simp
    next
      assume "t \<in> set (splitWhitespace (dropWhile isSpaceChar ?rest))"
      from "1.IH" [OF refl refl False this "1.prems"(2)]
      have "c \<in> set (dropWhile isSpaceChar ?rest) \<and> \<not> isSpaceChar c" .
      then show ?thesis
        by (auto dest!: set_dropWhileD)
    qed
  qed
qed

lemma splitWhitespace_word:
  assumes "\<forall>c\<in>set w. \<not> isSpaceChar c"
  shows "splitWhitespace w = [w]"
proof -
  from assms have "takeWhile (\<lambda>c. \<not> isSpaceChar c) w = w" "dropWhile (\<lambda>c. \<not> isSpaceChar c) w = []"
    by simp_all
  then show ?thesis
    by (subst splitWhitespace.simps) (simp add: Let_def)
qed

lemma splitWhitespace_word_space:
  assumes "\<forall>c\<in>set w. \<not> isSpaceChar c" and "r \<noteq> []" and "\<not> isSpaceChar (hd r)"
  shows "splitWhitespace (w @ CHR '' '' # r) = w # splitWhitespace r"
proof -
  from assms(1) have "takeWhile (\<lambda>c. \<not> isSpaceChar c) (w @ CHR '' '' # r) = w"
    by (simp add: takeWhile_append2 isSpaceChar_space)
  moreover from assms(1) have "dropWhile (\<lambda>c. \<not> isSpaceChar c) (w @ CHR '' '' # r) = CHR '' '' # r"
    by (simp add: dropWhile_append2 isSpaceChar_space)
  moreover from assms(2,3) have "dropWhile isSpaceChar (CHR '' '' # r) = r"
    by (cases r) (simp_all add: isSpaceChar_space)
  ultimately show ?thesis
    by (subst splitWhitespace.simps) (simp add: Let_def)
qed

lemma splitWhitespace_joinWith:
  assumes "ts \<noteq> []" and "\<forall>t\<in>set ts. t \<noteq> [] \<and> (\<forall>c\<in>set t. \<not> isSpaceChar c)"
  shows "splitWhitespace (joinWith '' '' ts) = ts"
  using assms
proof (induction ts rule: induct_list012)
  case 1
  then show ?case by simp
next
  case (2 x)
  then show ?case by (simp add: splitWhitespace_word)
next
  case (3 x y ys)
  have hd_y: "joinWith '' '' (y # ys) \<noteq> [] \<and> hd (joinWith '' '' (y # ys)) = hd y"
    using "3.prems" by (cases ys) auto
  have "\<not> isSpaceChar (hd y)"
    using "3.prems" by (cases y) auto
  with hd_y "3.prems" have "splitWhitespace (x @ CHR '' '' # joinWith '' '' (y # ys))
      = x # splitWhitespace (joinWith '' '' (y # ys))"
    by (intro splitWhitespace_word_space) auto
  moreover have "splitWhitespace (joinWith '' '' (y # ys)) = y # ys"
    using "3.IH"(2) "3.prems" by simp
  ultimately show ?case by simp
qed

lemma set_joinWith: "set (joinWith sep ts) \<subseteq> set sep \<union> \<Union> (set ` set ts)"
  by (induction sep ts rule: joinWith.induct) auto

lemma tokenize_tokens:
  assumes "t \<in> set (tokenize text)"
  shows "2 < length t \<and> t \<notin> STOP_WORDS \<and> (\<forall>c\<in>set t. isWordChar c \<and> toLowerChar c = c)"
proof -
  let ?s = "removeTags (toLowerCase text)"
  from assms have t: "t \<in> set (splitWhitespace (removePunctuation ?s))"
    and len: "2 < length t" and stop: "t \<notin> STOP_WORDS"
    by (simp_all add: tokenize_def)
  have "isWordChar c \<and> toLowerChar c = c" if "c \<in> set t" for c
  proof -
    from splitWhitespace_chars [OF t that]
    have c: "c \<in> set (removePunctuation ?s)" and ns: "\<not> isSpaceChar c"
      by simp_all
    from c ns have w: "isWordChar c" and "c \<in> set ?s"
      by (auto simp: removePunctuation_def isSpaceChar_space split: if_splits)
    with set_removeTags [of "toLowerCase text"] ns have "c \<in> set (toLowerCase text)"
      by (auto simp: isSpaceChar_space)
    then have "toLowerChar c = c"
      by (auto simp: toLowerCase_def toLowerChar_idem)
    with w show ?thesis by simp
  qed
  with len stop show ?thesis by simp
qed

text \<open>
  C9. Tokenization is idempotent: for every input string, tokenizing the tokens of
  \<open>tokenize\<close> joined by single spaces gives the same token sequence again. Every token
  that \<open>tokenize\<close> produces is longer than 2, consists of word characters that lower-casing
  leaves alone, and is not a stop word.
\<close>

theorem tokenize_idempotent:
  "tokenize (joinWith '' '' (tokenize text)) = tokenize text \<and>
   list_all (\<lambda>t. 2 < length t \<and> t \<notin> STOP_WORDS \<and>
                  list_all (\<lambda>c. isWordChar c \<and> toLowerChar c = c) t) (tokenize text)"
proof -
  have idem: "tokenize (joinWith '' '' (tokenize text)) = tokenize text"
  proof -
    let ?ts = "tokenize text"
    let ?j = "joinWith '' '' ?ts"
    have chars: "(isWordChar c \<and> toLowerChar c = c) \<or> c = CHR '' ''" if "c \<in> set ?j" for c
    proof -
      from that set_joinWith [of "'' ''" "tokenize text"]
      have "c = CHR '' '' \<or> (\<exists>t\<in>set ?ts. c \<in> set t)"
        by auto
      then show ?thesis
        using tokenize_tokens by blast
    qed
    have "toLowerChar c = c" if "c \<in> set ?j" for c
      using chars [OF that] toLowerChar_space by auto
    then have "toLowerCase ?j = ?j"
      unfolding toLowerCase_def by (intro map_idI)
    moreover have "CHR ''<'' \<notin> set ?j"
      using chars isWordChar_not_lt by fastforce
    then have "removeTags ?j = ?j"
      by (rule removeTags_no_lt)
    moreover have "(if isWordChar c \<or> isSpaceChar c then c else CHR '' '') = c" if "c \<in> set ?j" for c
      using chars [OF that] by auto
    then have "removePunctuation ?j = ?j"
      unfolding removePunctuation_def by (intro map_idI)
    ultimately have norm: "removePunctuation (removeTags (toLowerCase ?j)) = ?j"
      by simp
    have keep: "filter (\<lambda>word. word \<notin> STOP_WORDS) (filter (\<lambda>word. length word > 2) ?ts) = ?ts"
      using tokenize_tokens [of _ "text"] by (simp add: filter_id_conv)
    show ?thesis
    proof (cases "?ts = []")
      case True
      then have "tokenize ?j = tokenize []"
        by simp
      also have "\<dots> = []"
        by (simp add: tokenize_def toLowerCase_def removePunctuation_def splitWhitespace.simps [of "[]"])
      finally show ?thesis
        using True by simp
    next
      case False
      have "t \<noteq> [] \<and> (\<forall>c\<in>set t. \<not> isSpaceChar c)" if "t \<in> set ?ts" for t
        using tokenize_tokens [OF that] isWordChar_not_space by auto
      then have "\<forall>t\<in>set ?ts. t \<noteq> [] \<and> (\<forall>c\<in>set t. \<not> isSpaceChar c)"
        by blast
      with False have "splitWhitespace ?j = ?ts"
        by (rule splitWhitespace_joinWith)
      then have "tokenize ?j
          = filter (\<lambda>word. word \<notin> STOP_WORDS) (filter (\<lambda>word. length word > 2) ?ts)"
        unfolding tokenize_def [of "joinWith '' '' (tokenize text)"] norm by simp
      with keep show ?thesis
        by simp
    qed
  qed
  moreover have "list_all (\<lambda>t. 2 < length t \<and> t \<notin> STOP_WORDS \<and>
                  list_all (\<lambda>c. isWordChar c \<and> toLowerChar c = c) t) (tokenize text)"
    unfolding list_all_iff using tokenize_tokens by blast
  ultimately show ?thesis
    by simp
qed

theorem tokenize_idempotent_witness:
  "tokenize ''<p>The React Hooks!</p>'' = [''react'', ''hooks''] \<and>
   tokenize (joinWith '' '' (tokenize ''<p>The React Hooks!</p>'')) = [''react'', ''hooks'']"
proof -
  have "tokenize ''<p>The React Hooks!</p>'' = [''react'', ''hooks'']"
    by code_simp
  with tokenize_idempotent [of "''<p>The React Hooks!</p>''"] show ?thesis
    by simp
qed

section \<open>Properties of the term statistics\<close>

lemma sum_list_divide:
  "sum_list (map (\<lambda>p. snd p / d) xs) = sum_list (map snd xs) / (d::real)"
  by (induction xs) (simp_all add: add_divide_distrib)

lemma sum_update_getOrZero:
  "sum_list (map snd (AList.update k (getOrZero al k + 1) al)) = sum_list (map snd al) + (1::real)"
  by (induction al) (auto simp: getOrZero_def)

lemma sum_fold_count:
  "sum_list (map snd (fold (\<lambda>token tf. AList.update token (getOrZero tf token + 1) tf) tokens tf))
     = sum_list (map snd tf) + real (length tokens)"
  by (induction tokens arbitrary: tf) (simp_all add: sum_update_getOrZero)

lemma distinct_fold_count:
  "distinct (map fst tf) \<Longrightarrow>
   distinct (map fst (fold (\<lambda>token tf. AList.update token (getOrZero tf token + 1) tf) tokens tf))"
  by (induction tokens arbitrary: tf) (simp_all add: distinct_update)

lemma getOrZero_fold_count:
  "getOrZero (fold (\<lambda>token tf. AList.update token (getOrZero tf token + 1) tf) tokens tf) t
     = getOrZero tf t + real (count_list tokens t)"
proof (induction tokens arbitrary: tf)
  case Nil
  then show ?case by simp
next
  case (Cons a tokens)
  have "getOrZero (AList.update a (getOrZero tf a + 1) tf) t
          = getOrZero tf t + (if a = t then 1 else 0)"
    by (simp add: getOrZero_def update_conv')
  with Cons.IH [of "AList.update a (getOrZero tf a + 1) tf"] show ?case
    by simp
qed

lemma keys_fold_count:
  "fst ` set (fold (\<lambda>token tf. AList.update token (getOrZero tf token + 1) tf) tokens tf)
     = fst ` set tf \<union> set tokens"
proof (induction tokens arbitrary: tf)
  case Nil
  then show ?case by simp
next
  case (Cons a tokens)
  have "fst ` set (AList.update a (getOrZero tf a + 1) tf) = insert a (fst ` set tf)"
    using dom_update [of a "getOrZero tf a + 1" tf] by simp
  with Cons.IH [of "AList.update a (getOrZero tf a + 1) tf"] show ?case
    by auto
qed

lemma keys_countTokens: "fst ` set (countTokens tokens) = set tokens"
  by (simp add: countTokens_def keys_fold_count)

lemma map_of_countTokens:
  "map_of (countTokens tokens) t
     = (if t \<in> set tokens then Some (real (count_list tokens t)) else None)"
proof (cases "t \<in> set tokens")
  case True
  then have "t \<in> fst ` set (countTokens tokens)"
    by (simp add: keys_countTokens)
  then obtain v where v: "map_of (countTokens tokens) t = Some v"
    by (metis domD dom_map_of_conv_image_fst)
  moreover have "getOrZero (countTokens tokens) t = real (count_list tokens t)"
    using getOrZero_fold_count [of tokens "[]" t]
    by (simp add: countTokens_def getOrZero_def)
  ultimately show ?thesis
    using True by (simp add: getOrZero_def)
next
  case False
  then have "t \<notin> fst ` set (countTokens tokens)"
    by (simp add: keys_countTokens)
  then show ?thesis
    using False by (simp add: map_of_eq_None_iff)
qed

lemma roundHalfEven_error: "\<bar>of_int (roundHalfEven y) - y\<bar> \<le> 1 / 2"
  unfolding roundHalfEven_def Let_def by (auto simp: abs_if) linarith+

lemma roundDouble_error:
  assumes "0 \<le> x"
  shows "\<bar>roundDouble x - x\<bar> \<le> x / 2 ^ 53"
proof (cases "x = 0")
  case True
  then show ?thesis by (simp add: roundDouble_def)
next
  case False
  with assms have x: "0 < x" by simp
  define e where "e = \<lfloor>log 2 x\<rfloor>"
  define ulp :: real where "ulp = 2 powr (of_int (e - 52))"
  have ulp: "0 < ulp" by (simp add: ulp_def)
  have "2 powr (of_int e) \<le> x"
    using x floor_log_eq_powr_iff [of x 2 e] by (simp add: e_def)
  moreover have "2 powr (of_int e) = ulp * 2 ^ 52"
    by (simp add: ulp_def powr_diff)
  ultimately have low: "ulp * 2 ^ 52 \<le> x" by simp
  have rd: "roundDouble x = of_int (roundHalfEven (x / ulp)) * ulp"
    using x by (simp add: roundDouble_def e_def ulp_def Let_def)
  have "\<bar>roundDouble x - x\<bar> = \<bar>of_int (roundHalfEven (x / ulp)) - x / ulp\<bar> * ulp"
  proof -
    have "roundDouble x - x = (of_int (roundHalfEven (x / ulp)) - x / ulp) * ulp"
      using ulp by (simp add: rd field_simps)
    then show ?thesis
      using ulp by (simp add: abs_mult)
  qed
  also have "\<dots> \<le> (1 / 2) * ulp"
    using roundHalfEven_error [of "x / ulp"] ulp by (intro mult_right_mono) simp_all
  also have "\<dots> = ulp * 2 ^ 52 / 2 ^ 53"
    by simp
  also have "\<dots> \<le> x / 2 ^ 53"
    using low by (intro divide_right_mono) simp_all
  finally show ?thesis .
qed

lemma roundDouble_eval:
  assumes "0 < x" and "2 powr (of_int e) \<le> x" and "x < 2 powr (of_int (e + 1))"
  shows "roundDouble x = of_int (roundHalfEven (x / 2 powr (of_int (e - 52)))) * 2 powr (of_int (e - 52))"
proof -
  have "\<lfloor>log 2 x\<rfloor> = e"
    using assms floor_log_eq_powr_iff [of x 2 e] by simp
  with assms(1) show ?thesis
    by (simp add: roundDouble_def Let_def)
qed

lemma roundDouble_one: "roundDouble 1 = 1"
  by (simp add: roundDouble_def roundHalfEven_def powr_minus)

lemma roundDouble_tenth: "roundDouble (1 / 10) = 3602879701896397 / 36028797018963968"
proof -
  have p: "(2::real) powr (- 56) = 1 / 2 ^ 56" "(2::real) powr (- 4) = 1 / 2 ^ 4" "(2::real) powr (- 3) = 1 / 2 ^ 3"
    by (simp_all add: powr_minus_divide)
  have "roundDouble (1 / 10) = of_int (roundHalfEven ((1 / 10) / 2 powr (of_int (- 4 - 52)))) * 2 powr (of_int (- 4 - 52))"
    by (rule roundDouble_eval) (simp_all add: p)
  also have "(1 / 10) / 2 powr (of_int (- 4 - 52)) = (72057594037927936 / 10 :: real)"
    by (simp add: p)
  also have "roundHalfEven (72057594037927936 / 10) = 7205759403792794"
  proof -
    have "\<lfloor>72057594037927936 / 10 :: real\<rfloor> = 7205759403792793"
      by (simp add: floor_eq_iff)
    then show ?thesis
      by (simp add: roundHalfEven_def)
  qed
  finally show ?thesis
    by (simp add: p)
qed

lemma keys_calculateTF: "fst ` set (calculateTF tokens) = set tokens"
proof -
  have "map fst (calculateTF tokens) = map fst (countTokens tokens)"
    by (simp add: calculateTF_def case_prod_unfold comp_def)
  then have "set (map fst (calculateTF tokens)) = set (map fst (countTokens tokens))"
    by simp
  then show ?thesis
    by (simp add: keys_countTokens)
qed

lemma map_of_calculateTF:
  "map_of (calculateTF tokens) t
     = (if t \<in> set tokens
        then Some (roundDouble (real (count_list tokens t) / real (length tokens))) else None)"
  by (simp add: calculateTF_def map_of_map map_of_countTokens)

lemma distinct_countTokens: "distinct (map fst (countTokens tokens))"
  using distinct_fold_count [of "[]" tokens] by (simp add: countTokens_def)

lemma countTokens_nonneg:
  assumes "p \<in> set (countTokens tokens)"
  shows "0 \<le> snd p"
proof -
  from assms have "map_of (countTokens tokens) (fst p) = Some (snd p)"
    using distinct_countTokens [of tokens] by simp
  then show ?thesis
    by (simp add: map_of_countTokens split: if_splits)
qed

lemma sum_list_round_error:
  assumes "\<forall>p\<in>set al. 0 \<le> snd p" and "0 \<le> n"
  shows "\<bar>sum_list (map (\<lambda>p. roundDouble (snd p / n)) al) - sum_list (map (\<lambda>p. snd p / n) al)\<bar>
           \<le> sum_list (map (\<lambda>p. snd p / n) al) / 2 ^ 53"
  using assms(1)
proof (induction al)
  case Nil
  then show ?case by simp
next
  case (Cons p al)
  let ?r = "roundDouble (snd p / n)" and ?x = "snd p / n"
  let ?R = "sum_list (map (\<lambda>p. roundDouble (snd p / n)) al)"
  let ?X = "sum_list (map (\<lambda>p. snd p / n) al)"
  from Cons.prems assms(2) have "0 \<le> ?x"
    by simp
  then have head: "\<bar>?r - ?x\<bar> \<le> ?x / 2 ^ 53"
    by (rule roundDouble_error)
  from Cons have rest: "\<bar>?R - ?X\<bar> \<le> ?X / 2 ^ 53"
    by simp
  have "\<bar>(?r + ?R) - (?x + ?X)\<bar> \<le> \<bar>?r - ?x\<bar> + \<bar>?R - ?X\<bar>"
    by linarith
  also have "\<dots> \<le> ?x / 2 ^ 53 + ?X / 2 ^ 53"
    using head rest by (rule add_mono)
  also have "\<dots> = (?x + ?X) / 2 ^ 53"
    by (simp only: add_divide_distrib)
  finally show ?case
    by simp
qed

text \<open>
  C7, as the code has it. For every non-empty token sequence the map that \<open>calculateTF\<close>
  returns has one entry per distinct token, the entry of a token is its number of
  occurrences divided by the number of tokens and rounded to the nearest double, and the
  values sum to 1 up to that rounding: their sum differs from 1 by at most \<open>2^-53\<close>.
\<close>

theorem calculateTF_sums_to_one:
  assumes "tokens \<noteq> []"
  shows "\<bar>sum_list (map snd (calculateTF tokens)) - 1\<bar> \<le> 1 / 2 ^ 53 \<and>
         distinct (map fst (calculateTF tokens)) \<and>
         map_of (calculateTF tokens)
           = (\<lambda>t. if t \<in> set tokens
                   then Some (roundDouble (real (count_list tokens t) / real (length tokens)))
                   else None)"
proof -
  let ?n = "real (length tokens)"
  have stored: "map snd (calculateTF tokens)
          = map (\<lambda>p. roundDouble (snd p / ?n)) (countTokens tokens)"
    by (simp add: calculateTF_def case_prod_unfold comp_def)
  have "sum_list (map (\<lambda>p. snd p / ?n) (countTokens tokens))
          = sum_list (map snd (countTokens tokens)) / ?n"
    by (simp only: sum_list_divide)
  also have "\<dots> = ?n / ?n"
    using sum_fold_count [of tokens "[]"] by (simp add: countTokens_def)
  also have "\<dots> = 1"
    using assms by simp
  finally have exact: "sum_list (map (\<lambda>p. snd p / ?n) (countTokens tokens)) = 1" .
  have "\<bar>sum_list (map (\<lambda>p. roundDouble (snd p / ?n)) (countTokens tokens))
          - sum_list (map (\<lambda>p. snd p / ?n) (countTokens tokens))\<bar>
        \<le> sum_list (map (\<lambda>p. snd p / ?n) (countTokens tokens)) / 2 ^ 53"
    by (rule sum_list_round_error) (simp_all add: countTokens_nonneg)
  then have total: "\<bar>sum_list (map snd (calculateTF tokens)) - 1\<bar> \<le> 1 / 2 ^ 53"
    unfolding stored exact .
  have "map fst (calculateTF tokens) = map fst (countTokens tokens)"
    by (simp add: calculateTF_def case_prod_unfold comp_def)
  then have keys: "distinct (map fst (calculateTF tokens))"
    by (simp add: distinct_countTokens)
  from total keys show ?thesis
    by (simp add: map_of_calculateTF fun_eq_iff)
qed

theorem calculateTF_sums_to_one_witness:
  "[''react'', ''hooks'', ''react''] \<noteq> [] \<and>
   \<bar>sum_list (map snd (calculateTF [''react'', ''hooks'', ''react''])) - 1\<bar> \<le> 1 / 2 ^ 53 \<and>
   map fst (calculateTF [''react'', ''hooks'', ''react'']) = [''react'', ''hooks'']"
  using calculateTF_sums_to_one [of "[''react'', ''hooks'', ''react'']"]
  by (simp add: calculateTF_def countTokens_def getOrZero_def)

text \<open>
  The sum is not always 1. Ten different tokens give ten entries \<open>1/10\<close>, each stored as
  the double \<open>3602879701896397 / 2^55\<close>, which is a little more than a tenth.
\<close>

theorem calculateTF_sum_counterexample:
  "sum_list (map snd (calculateTF tenTokens)) = 36028797018963970 / 36028797018963968 \<and>
   sum_list (map snd (calculateTF tenTokens)) \<noteq> 1"
proof -
  have "calculateTF tenTokens = map (\<lambda>t. (t, roundDouble (1 / 10))) tenTokens"
    by (simp add: calculateTF_def countTokens_def getOrZero_def tenTokens_def)
  then have "sum_list (map snd (calculateTF tenTokens)) = 10 * roundDouble (1 / 10)"
    by (simp add: tenTokens_def)
  then show ?thesis
    by (simp add: roundDouble_tenth)
qed

lemma map_of_fold_unique:
  "distinct ts \<Longrightarrow>
   map_of (fold (\<lambda>term df. AList.update term (getOrZero df term + 1) df) ts df) t
     = (if t \<in> set ts then Some (getOrZero df t + (1::nat)) else map_of df t)"
proof (induction ts arbitrary: df)
  case Nil
  then show ?case by simp
next
  case (Cons a ts)
  from Cons.prems have "a \<notin> set ts" and "distinct ts"
    by simp_all
  with Cons.IH [of "AList.update a (getOrZero df a + 1) df"] show ?case
    by (auto simp: getOrZero_def update_conv')
qed

lemma uniqueTerms_set [simp]: "set (uniqueTerms doc) = set doc"
  by (simp add: uniqueTerms_def)

lemma uniqueTerms_distinct [simp]: "distinct (uniqueTerms doc)"
  by (simp add: uniqueTerms_def)

lemma documentFrequency_Cons:
  "documentFrequency (d # docs) t = (if t \<in> set d then 1 else 0) + documentFrequency docs t"
  by (simp add: documentFrequency_def)

lemma map_of_fold_documents:
  "map_of (fold (\<lambda>doc df. fold (\<lambda>term df. AList.update term (getOrZero df term + 1) df)
                              (uniqueTerms doc) df) docs df) t
     = (if documentFrequency docs t = 0 then map_of df t
        else Some (getOrZero df t + documentFrequency docs t))"
proof (induction docs arbitrary: df)
  case Nil
  then show ?case by (simp add: documentFrequency_def)
next
  case (Cons d docs)
  let ?df' = "fold (\<lambda>term df. AList.update term (getOrZero df term + 1) df) (uniqueTerms d) df"
  have step: "map_of ?df' t = (if t \<in> set d then Some (getOrZero df t + 1) else map_of df t)"
    using map_of_fold_unique [of "uniqueTerms d" df t] by simp
  then have get: "getOrZero ?df' t = (if t \<in> set d then getOrZero df t + 1 else getOrZero df t)"
    by (simp add: getOrZero_def)
  show ?case
    using Cons.IH [of ?df'] step get
    by (simp add: documentFrequency_Cons getOrZero_def split: option.splits)
qed

lemma map_of_countDocuments:
  "map_of (countDocuments docs) t
     = (if documentFrequency docs t = 0 then None else Some (documentFrequency docs t))"
  using map_of_fold_documents [of docs "[]" t]
  by (simp add: countDocuments_def getOrZero_def)

lemma map_of_calculateIDF:
  "map_of (calculateIDF docs) t
     = (if documentFrequency docs t = 0 then None
        else Some (ln ((real (length docs) + 1) / (real (documentFrequency docs t) + 1)) + 1))"
  by (simp add: calculateIDF_def map_of_map map_of_countDocuments)

lemma documentFrequency_pos:
  "0 < documentFrequency docs t \<longleftrightarrow> t \<in> \<Union> (set ` set docs)"
  by (auto simp: documentFrequency_def filter_empty_conv)

text \<open>
  C8. In every corpus, for two terms \<open>A\<close> and \<open>B\<close> that occur in it, if fewer documents
  contain \<open>A\<close> than contain \<open>B\<close>, then the map of \<open>calculateIDF\<close> holds
  \<open>ln((N+1)/(df+1)) + 1\<close> for both (\<open>N\<close> the number of documents, \<open>df\<close> the term's
  document frequency) and the value of \<open>A\<close> is strictly greater than the value of \<open>B\<close>.
\<close>

theorem calculateIDF_monotone:
  assumes "A \<in> \<Union> (set ` set documents)"
    and "B \<in> \<Union> (set ` set documents)"
    and "documentFrequency documents A < documentFrequency documents B"
  shows "map_of (calculateIDF documents) A
           = Some (ln ((real (length documents) + 1) / (real (documentFrequency documents A) + 1)) + 1) \<and>
         map_of (calculateIDF documents) B
           = Some (ln ((real (length documents) + 1) / (real (documentFrequency documents B) + 1)) + 1) \<and>
         getOrZero (calculateIDF documents) A > getOrZero (calculateIDF documents) B"
proof -
  let ?N = "real (length documents) + 1"
  let ?a = "real (documentFrequency documents A) + 1"
  let ?b = "real (documentFrequency documents B) + 1"
  from assms(1,2) have pos: "0 < documentFrequency documents A" "0 < documentFrequency documents B"
    by (simp_all only: documentFrequency_pos)
  then have A: "map_of (calculateIDF documents) A = Some (ln (?N / ?a) + 1)"
    and B: "map_of (calculateIDF documents) B = Some (ln (?N / ?b) + 1)"
    by (simp_all add: map_of_calculateIDF)
  have "?N / ?b < ?N / ?a"
    using assms(3) by (intro divide_strict_left_mono) (simp_all add: add_pos_nonneg)
  moreover have "0 < ?N / ?b"
    by (simp add: add_pos_nonneg)
  ultimately have "ln (?N / ?b) < ln (?N / ?a)"
    by (simp add: ln_less_cancel_iff)
  with A B show ?thesis
    by (simp add: getOrZero_def)
qed

theorem calculateIDF_monotone_witness:
  "documentFrequency [[''react'', ''hooks''], [''react'']] ''hooks''
     < documentFrequency [[''react'', ''hooks''], [''react'']] ''react'' \<and>
   map_of (calculateIDF [[''react'', ''hooks''], [''react'']]) ''hooks'' = Some (ln (3 / 2) + 1) \<and>
   map_of (calculateIDF [[''react'', ''hooks''], [''react'']]) ''react'' = Some 1 \<and>
   getOrZero (calculateIDF [[''react'', ''hooks''], [''react'']]) ''hooks''
     > getOrZero (calculateIDF [[''react'', ''hooks''], [''react'']]) ''react''"
  using calculateIDF_monotone [of "''hooks''" "[[''react'', ''hooks''], [''react'']]" "''react''"]
  by (simp add: documentFrequency_def)

section \<open>A request evaluated\<close>

text \<open>
  One candidate page \<open>React\<close> and a content that already holds a link: the candidate is
  scored, selected, and not inserted.
\<close>

lemma tokenize_linkedContent: "tokenize linkedContent = [''react'']"
  by code_simp

lemma tokenize_react: "tokenize ''react'' = [''react'']"
  by code_simp

lemma candidateDocument_react: "candidateDocument reactCandidate = [''react'', ''react'']"
  by code_simp

lemma anchor_react: "generateRichAnchor ''React'' [''react''] ''react'' = ''React''"
  by code_simp

lemma corpusIDF_example: "corpusIDF linkedContent [reactCandidate] = [(''react'', 1)]"
  by (simp add: corpusIDF_def tokenize_linkedContent candidateDocument_react calculateIDF_def
      countDocuments_def uniqueTerms_def getOrZero_def)

lemma calculateTFIDF_example:
  "calculateTFIDF [''react''] [''react'', ''react''] [(''react'', 1)] = (1, [''react''])"
  by (simp add: calculateTFIDF_def calculateTF_def countTokens_def getOrZero_def overlapStep_def
      idfOrOne_def roundDouble_one)

lemma boostedScoreOf_example:
  "boostedScoreOf [''react''] [''react''] ''react'' [(''react'', 1)] reactCandidate = 3 / 2"
proof -
  have "labelBoost ''react'' reactCandidate x = x" for x
    by (simp add: labelBoost_def reactCandidate_def orEmpty_def)
  then show ?thesis
    by (simp add: boostedScoreOf_def candidateDocument_react calculateTFIDF_example keywordBoost_def)
qed

lemma scoredLinkOf_example:
  "scoredLinkOf [''react''] [''react''] ''react'' [(''react'', 1)] 0 (Suc 0) reactCandidate = reactLink"
proof -
  have "candidateTitle reactCandidate = ''React''" "candidateUrl reactCandidate = ''https://example.com/react''"
    by (simp_all add: reactCandidate_def)
  then show ?thesis
    by (simp add: scoredLinkOf_def candidateDocument_react calculateTFIDF_example anchor_react
      boostedScoreOf_example determineLinkPosition_def reactLink_def)
qed

lemma scoreLinks_example: "scoreLinks linkedContent ''react'' [reactCandidate] = [reactLink]"
  by (simp add: scoreLinks_def tokenize_linkedContent tokenize_react corpusIDF_example
      boostedScoreOf_example scoredLinkOf_example)

lemma selectOptimalLinks_example: "selectOptimalLinks [reactLink] 5 = [reactLink]"
  by (simp add: selectOptimalLinks_def sortByScoreDesc_def reactLink_def maxPerPosition_def)

lemma insertLinksIntoContent_example:
  "insertLinksIntoContent linkedContent [reactLink] = (linkedContent, 0)"
proof -
  have p: "splitParagraphs linkedContent = [linkedContent]"
    by code_simp
  have h: "hasLink linkedContent"
    by code_simp
  have "insertOne 0 0 reactLink ([linkedContent], 0) = ([linkedContent], 0)"
    using h by (simp add: insertOne_def)
  then show ?thesis
    by (simp add: insertLinksIntoContent_def p reactLink_def)
qed

section \<open>Properties of the scorer\<close>

lemma fold_overlapStep_none:
  "\<forall>e\<in>set es. map_of candidateTF (fst e) = None \<Longrightarrow> fold (overlapStep candidateTF idf) es acc = acc"
  by (induction es arbitrary: acc) (simp_all add: overlapStep_def)

lemma snd_overlapStep:
  "snd (overlapStep candidateTF idf e acc)
     = snd acc @ (if map_of candidateTF (fst e) \<noteq> None then [fst e] else [])"
  by (simp add: overlapStep_def Let_def split: option.splits)

lemma snd_fold_overlapStep:
  "snd (fold (overlapStep candidateTF idf) es acc)
     = snd acc @ filter (\<lambda>t. map_of candidateTF t \<noteq> None) (map fst es)"
proof (induction es arbitrary: acc)
  case Nil
  then show ?case by simp
next
  case (Cons e es)
  have "snd (fold (overlapStep candidateTF idf) (e # es) acc)
          = snd (overlapStep candidateTF idf e acc)
            @ filter (\<lambda>t. map_of candidateTF t \<noteq> None) (map fst es)"
    using Cons.IH [of "overlapStep candidateTF idf e acc"] by simp
  then show ?case
    by (simp add: snd_overlapStep)
qed

lemma matchedTerms_calculateTFIDF:
  "snd (calculateTFIDF contentTokens candidateTokens idf)
     = filter (\<lambda>t. t \<in> set candidateTokens) (map fst (calculateTF contentTokens))"
proof -
  have "map_of (calculateTF candidateTokens) t \<noteq> None \<longleftrightarrow> t \<in> set candidateTokens" for t
    by (simp add: map_of_calculateTF)
  then show ?thesis
    by (simp add: calculateTFIDF_def Let_def snd_fold_overlapStep)
qed

lemma set_matchedTerms:
  "set (snd (calculateTFIDF contentTokens candidateTokens idf))
     = set contentTokens \<inter> set candidateTokens"
  using keys_calculateTF [of contentTokens]
  by (auto simp: matchedTerms_calculateTFIDF)

lemma no_match_zero_score:
  assumes "snd (calculateTFIDF contentTokens candidateTokens idf) = []"
  shows "fst (calculateTFIDF contentTokens candidateTokens idf) = 0"
proof -
  from assms have "\<forall>t\<in>set (map fst (calculateTF contentTokens)). t \<notin> set candidateTokens"
    by (simp add: matchedTerms_calculateTFIDF filter_empty_conv)
  then have "\<forall>e\<in>set (calculateTF contentTokens). map_of (calculateTF candidateTokens) (fst e) = None"
    by (simp add: map_of_calculateTF)
  then have "fold (overlapStep (calculateTF candidateTokens) idf) (calculateTF contentTokens) (0, [])
               = (0, [])"
    by (rule fold_overlapStep_none)
  then show ?thesis
    by (simp add: calculateTFIDF_def Let_def)
qed

lemma keywordBoost_zero: "keywordBoost keywordTokens candidateTokens 0 = 0"
proof -
  have "fold (\<lambda>kwToken boosted. if kwToken \<in> set candidateTokens then boosted * (3 / 2) else boosted)
          ks (0::real) = 0" for ks
    by (induction ks) simp_all
  then show ?thesis
    by (simp add: keywordBoost_def)
qed

lemma labelBoost_zero: "labelBoost keyword candidate 0 = 0"
  by (simp add: labelBoost_def Let_def)

lemma boostedScoreOf_zero:
  assumes "fst (calculateTFIDF contentTokens (candidateDocument candidate) idf) = 0"
  shows "boostedScoreOf contentTokens keywordTokens keyword idf candidate = 0"
  using assms by (simp add: boostedScoreOf_def Let_def keywordBoost_zero labelBoost_zero)

lemma fold_push_filter:
  "fold (\<lambda>i acc. if P i then acc @ [g i] else acc) xs acc0 = acc0 @ map g (filter P xs)"
  by (induction xs arbitrary: acc0) simp_all

lemma scoreLinks_filter:
  "scoreLinks contentText keyword candidates
     = map (\<lambda>i. scoredLinkOf (tokenize contentText) (tokenize keyword) keyword
                   (corpusIDF contentText candidates) i (length candidates) (candidates ! i))
           (filter (\<lambda>i. boostedScoreOf (tokenize contentText) (tokenize keyword) keyword
                          (corpusIDF contentText candidates) (candidates ! i) > 1 / 1000)
                   [0..<length candidates])"
  unfolding scoreLinks_def Let_def
  using fold_push_filter [of
      "\<lambda>i. boostedScoreOf (tokenize contentText) (tokenize keyword) keyword
                          (corpusIDF contentText candidates) (candidates ! i) > 1 / 1000"
      "\<lambda>i. scoredLinkOf (tokenize contentText) (tokenize keyword) keyword
                   (corpusIDF contentText candidates) i (length candidates) (candidates ! i)"
      "[0..<length candidates]" "[]"]
  by simp



lemma pool_links_matched:
  assumes "l \<in> set (scoreLinks contentText keyword candidates)"
  shows "matchedTerms l \<noteq> [] \<and>
         (\<exists>i<length candidates. url l = candidateUrl (candidates ! i) \<and>
            set (matchedTerms l) = set (tokenize contentText) \<inter> set (candidateDocument (candidates ! i)))"
proof -
  let ?ct = "tokenize contentText" and ?kt = "tokenize keyword"
  let ?idf = "corpusIDF contentText candidates"
  from assms obtain i where i: "i < length candidates"
    and above: "boostedScoreOf ?ct ?kt keyword ?idf (candidates ! i) > 1 / 1000"
    and l: "l = scoredLinkOf ?ct ?kt keyword ?idf i (length candidates) (candidates ! i)"
    by (auto simp: scoreLinks_filter)
  from l have m: "matchedTerms l = snd (calculateTFIDF ?ct (candidateDocument (candidates ! i)) ?idf)"
    and u: "url l = candidateUrl (candidates ! i)"
    by (simp_all add: scoredLinkOf_def Let_def)
  have "matchedTerms l \<noteq> []"
  proof
    assume "matchedTerms l = []"
    with m have "fst (calculateTFIDF ?ct (candidateDocument (candidates ! i)) ?idf) = 0"
      by (simp add: no_match_zero_score)
    then have "boostedScoreOf ?ct ?kt keyword ?idf (candidates ! i) = 0"
      by (rule boostedScoreOf_zero)
    with above show False by simp
  qed
  moreover from m have "set (matchedTerms l) = set ?ct \<inter> set (candidateDocument (candidates ! i))"
    by (simp add: set_matchedTerms)
  ultimately show ?thesis
    using i u by blast
qed

lemma pool_links_indexed:
  assumes "l \<in> set (scoreLinks contentText keyword candidates)"
  shows "\<exists>j<length candidates.
           l = scoredLinkOf (tokenize contentText) (tokenize keyword) keyword
                 (corpusIDF contentText candidates) j (length candidates) (candidates ! j) \<and>
           position l = determineLinkPosition j (length candidates)"
  using assms by (auto simp: scoreLinks_filter scoredLinkOf_def Let_def)

lemma pool_positions:
  "map position (scoreLinks contentText keyword candidates)
     = map (\<lambda>i. determineLinkPosition i (length candidates))
           (filter (\<lambda>i. boostedScoreOf (tokenize contentText) (tokenize keyword) keyword
                          (corpusIDF contentText candidates) (candidates ! i) > 1 / 1000)
                   [0..<length candidates])"
  by (simp only: scoreLinks_filter map_map comp_def) (simp add: scoredLinkOf_def Let_def)

section \<open>Properties of the selector\<close>

lemma selectLoop_cases:
  assumes "P st"
    and "\<And>st link. P st \<Longrightarrow> real (length (selected st)) < K \<Longrightarrow>
           toLowerCase (anchor link) \<notin> usedAnchors st \<Longrightarrow>
           int (countOf (counts st) (position link)) < maxPerPosition K + 1 \<Longrightarrow>
           link \<in> set ls \<Longrightarrow>
           P \<lparr>selected = selected st @ [link],
              usedAnchors = insert (toLowerCase (anchor link)) (usedAnchors st),
              counts = increment (counts st) (position link)\<rparr>"
  shows "P (selectLoop K ls st)"
  using assms
proof (induction ls arbitrary: st)
  case Nil
  then show ?case by simp
next
  case (Cons link rest)
  have step: "\<And>st l. P st \<Longrightarrow> real (length (selected st)) < K \<Longrightarrow>
           toLowerCase (anchor l) \<notin> usedAnchors st \<Longrightarrow>
           int (countOf (counts st) (position l)) < maxPerPosition K + 1 \<Longrightarrow>
           l \<in> set rest \<Longrightarrow>
           P \<lparr>selected = selected st @ [l],
              usedAnchors = insert (toLowerCase (anchor l)) (usedAnchors st),
              counts = increment (counts st) (position l)\<rparr>"
    using Cons.prems(2) by simp
  show ?case
  proof (cases "real (length (selected st)) \<ge> K")
    case True
    with Cons.prems(1) show ?thesis by simp
  next
    case False
    note open_slot = this
    show ?thesis
    proof (cases "toLowerCase (anchor link) \<in> usedAnchors st")
      case True
      with open_slot Cons.IH [OF Cons.prems(1) step] show ?thesis by simp
    next
      case False
      note fresh = this
      show ?thesis
      proof (cases "int (countOf (counts st) (position link)) \<ge> maxPerPosition K + 1")
        case True
        with open_slot fresh Cons.IH [OF Cons.prems(1) step] show ?thesis by simp
      next
        case False
        with open_slot fresh Cons.prems(1)
        have "P \<lparr>selected = selected st @ [link],
                 usedAnchors = insert (toLowerCase (anchor link)) (usedAnchors st),
                 counts = increment (counts st) (position link)\<rparr>"
          by (intro Cons.prems(2)) simp_all
        from Cons.IH [OF this step] open_slot fresh False show ?thesis
          by (simp add: Let_def)
      qed
    qed
  qed
qed

lemma selectLoop_anchorInv: "anchorInv st \<Longrightarrow> anchorInv (selectLoop K ls st)"
  by (rule selectLoop_cases [where P = anchorInv]) (auto simp: anchorInv_def)

lemma capInv_step:
  assumes "capInv K st" and "K \<in> \<int>"
    and "real (length (selected st)) < K"
    and "int (countOf (counts st) (position link)) < maxPerPosition K + 1"
  shows "capInv K \<lparr>selected = selected st @ [link],
                   usedAnchors = insert (toLowerCase (anchor link)) (usedAnchors st),
                   counts = increment (counts st) (position link)\<rparr>"
proof -
  from assms(2) obtain k :: int where k: "K = of_int k"
    by (auto elim: Ints_cases)
  with assms(3) have "int (length (selected st)) < k"
    by (metis of_int_less_iff of_int_of_nat_eq)
  then have "real (length (selected st)) + 1 \<le> K"
    unfolding k by (metis of_int_1 of_int_add of_int_le_iff of_int_of_nat_eq zless_imp_add1_zle)
  with assms(1,4) show ?thesis
    by (cases "position link") (auto simp: capInv_def inBucket_def)
qed

lemma selectLoop_capInv:
  assumes "capInv K st" and "K \<in> \<int>"
  shows "capInv K (selectLoop K ls st)"
  using assms(1)
  by (rule selectLoop_cases [where P = "capInv K"]) (simp add: capInv_step assms(2))

lemma selectLoop_subset:
  assumes "set (selected st) \<subseteq> A" and "set ls \<subseteq> A"
  shows "set (selected (selectLoop K ls st)) \<subseteq> A"
  using assms(1)
  by (rule selectLoop_cases [where P = "\<lambda>st. set (selected st) \<subseteq> A"]) (use assms(2) in auto)

lemma lower_anchors:
  "toLowerCase ''Alpha'' = ''alpha''" "toLowerCase ''Bravo'' = ''bravo''"
  "toLowerCase ''Charlie'' = ''charlie''"
  by (simp_all add: toLowerCase_def toLowerChar_def char_of_eq_iff)

lemma selectOptimalLinks_subset: "set (selectOptimalLinks scoredLinks K) \<subseteq> set scoredLinks"
  unfolding selectOptimalLinks_def
  by (rule selectLoop_subset) (simp_all add: sortByScoreDesc_def)

text \<open>
  C1. For every list of scored links and every \<open>maxLinks\<close>, the links that
  \<open>selectOptimalLinks\<close> returns have pairwise different lower-cased anchors: no two of them
  have anchors that are equal up to letter case.
\<close>

theorem selectOptimalLinks_no_duplicate_anchors:
  "distinct (map (\<lambda>l. toLowerCase (anchor l)) (selectOptimalLinks scoredLinks K))"
proof -
  have "anchorInv (selectLoop K (sortByScoreDesc scoredLinks)
       \<lparr>selected = [], usedAnchors = {}, counts = \<lparr>early = 0, middle = 0, late = 0\<rparr>\<rparr>)"
    by (rule selectLoop_anchorInv) (simp add: anchorInv_def)
  then show ?thesis
    by (simp add: anchorInv_def selectOptimalLinks_def)
qed

text \<open>
  C2, as the code has it. For every list of scored links and every \<open>maxLinks = K\<close> that
  is a whole number and not negative, the output of \<open>selectOptimalLinks\<close> holds at most
  \<open>ceil(K/3) + 1\<close> links of each of the three position buckets, and at most \<open>K\<close> links in
  all.
\<close>

theorem selectOptimalLinks_bucket_cap:
  assumes "0 \<le> K" and "K \<in> \<int>"
  shows "int (inBucket Early (selectOptimalLinks scoredLinks K)) \<le> \<lceil>K / 3\<rceil> + 1 \<and>
         int (inBucket Middle (selectOptimalLinks scoredLinks K)) \<le> \<lceil>K / 3\<rceil> + 1 \<and>
         int (inBucket Late (selectOptimalLinks scoredLinks K)) \<le> \<lceil>K / 3\<rceil> + 1 \<and>
         real (length (selectOptimalLinks scoredLinks K)) \<le> K"
proof -
  from assms(1) have "0 \<le> \<lceil>K / 3\<rceil>"
    by (simp add: ceiling_le_iff [symmetric] le_ceiling_iff)
  with assms(1) have "capInv K \<lparr>selected = [], usedAnchors = {},
                               counts = \<lparr>early = 0, middle = 0, late = 0\<rparr>\<rparr>"
    by (simp add: capInv_def inBucket_def maxPerPosition_def)
  then have "capInv K (selectLoop K (sortByScoreDesc scoredLinks)
       \<lparr>selected = [], usedAnchors = {}, counts = \<lparr>early = 0, middle = 0, late = 0\<rparr>\<rparr>)"
    using assms(2) by (rule selectLoop_capInv)
  then show ?thesis
    by (simp add: capInv_def selectOptimalLinks_def maxPerPosition_def)
qed

theorem selectOptimalLinks_bucket_cap_witness:
  "(0::real) \<le> 2 \<and> (2::real) \<in> \<int> \<and>
   selectOptimalLinks [lateLink, earlyLink, middleLink] 2 = [earlyLink, middleLink] \<and>
   real (length (selectOptimalLinks [lateLink, earlyLink, middleLink] 2)) \<le> 2 \<and>
   int (inBucket Early (selectOptimalLinks [lateLink, earlyLink, middleLink] 2)) \<le> \<lceil>2 / 3 :: real\<rceil> + 1"
proof -
  have "selectOptimalLinks [lateLink, earlyLink, middleLink] 2 = [earlyLink, middleLink]"
    by (simp add: selectOptimalLinks_def sortByScoreDesc_def maxPerPosition_def
        earlyLink_def middleLink_def lateLink_def lower_anchors Let_def)
  with selectOptimalLinks_bucket_cap [of 2 "[lateLink, earlyLink, middleLink]"] show ?thesis
    by simp
qed

text \<open>
  The bounds fail for other numbers. With \<open>maxLinks = -1\<close> nothing is selected, and 0 is
  not at most \<open>-1\<close>; with \<open>maxLinks = -7\<close> the cap \<open>ceil(K/3) + 1\<close> is \<open>-1\<close>, below the empty
  buckets; with \<open>maxLinks = 2.5\<close> three links are selected.
\<close>

theorem selectOptimalLinks_bound_counterexample:
  "selectOptimalLinks [] (- 1) = [] \<and>
   \<not> real (length (selectOptimalLinks [] (- 1))) \<le> - 1 \<and>
   \<not> int (inBucket Early (selectOptimalLinks [] (- 7))) \<le> \<lceil>- 7 / 3 :: real\<rceil> + 1 \<and>
   selectOptimalLinks [earlyLink, middleLink, lateLink] (5 / 2) = [earlyLink, middleLink, lateLink] \<and>
   \<not> real (length (selectOptimalLinks [earlyLink, middleLink, lateLink] (5 / 2))) \<le> 5 / 2"
proof -
  have "selectOptimalLinks [earlyLink, middleLink, lateLink] (5 / 2) = [earlyLink, middleLink, lateLink]"
    by (simp add: selectOptimalLinks_def sortByScoreDesc_def maxPerPosition_def
        earlyLink_def middleLink_def lateLink_def lower_anchors Let_def)
  moreover have "selectOptimalLinks [] K = []" for K
    by (simp add: selectOptimalLinks_def sortByScoreDesc_def)
  moreover have "\<lceil>- 7 / 3 :: real\<rceil> = - 2"
    by (simp add: ceiling_eq_iff)
  ultimately show ?thesis
    by (simp add: inBucket_def)
qed

section \<open>Properties of the position tag\<close>

lemma ratio_less:
  assumes "0 < n" and "0 < b"
  shows "real i / real n < real a / real b \<longleftrightarrow> b * i < a * n"
proof -
  have "real i / real n < real a / real b \<longleftrightarrow> real i * real b < real a * real n"
    using assms by (simp add: field_simps)
  also have "\<dots> \<longleftrightarrow> real (b * i) < real (a * n)"
    by (simp add: mult.commute)
  also have "\<dots> \<longleftrightarrow> b * i < a * n"
    by (simp only: of_nat_less_iff)
  finally show ?thesis .
qed

text \<open>
  C6, as the code has it. The position tag of a scored link is computed from the index
  \<open>i\<close> of its candidate in the candidate list as it was fetched and from the length \<open>n\<close> of
  that list, with the thresholds \<open>0.33\<close> and \<open>0.66\<close>: early when \<open>i/n < 0.33\<close>, middle when
  \<open>0.33 \<le> i/n < 0.66\<close>, late when \<open>0.66 \<le> i/n\<close> (in whole numbers, \<open>i/n < 0.33\<close> is
  \<open>100 i < 33 n\<close> and \<open>i/n < 0.66\<close> is \<open>100 i < 66 n\<close>). The tags of the pool are those of
  the indices that pass the floor, in the order of the candidate list, and a link that
  \<open>selectOptimalLinks\<close> returns after sorting by score still carries the tag of its index.
\<close>

theorem determineLinkPosition_thresholds:
  assumes "0 < n"
  shows "map position (scoreLinks contentText keyword candidates)
           = map (\<lambda>i. determineLinkPosition i (length candidates))
               (filter (\<lambda>i. boostedScoreOf (tokenize contentText) (tokenize keyword) keyword
                              (corpusIDF contentText candidates) (candidates ! i) > 1 / 1000)
                       [0..<length candidates]) \<and>
         (l \<in> set (selectOptimalLinks (scoreLinks contentText keyword candidates) K) \<longrightarrow>
            (\<exists>j<length candidates.
               l = scoredLinkOf (tokenize contentText) (tokenize keyword) keyword
                     (corpusIDF contentText candidates) j (length candidates) (candidates ! j) \<and>
               position l = determineLinkPosition j (length candidates))) \<and>
         (determineLinkPosition i n = Early \<longleftrightarrow> real i / real n < 33 / 100) \<and>
         (determineLinkPosition i n = Middle
            \<longleftrightarrow> 33 / 100 \<le> real i / real n \<and> real i / real n < 66 / 100) \<and>
         (determineLinkPosition i n = Late \<longleftrightarrow> 66 / 100 \<le> real i / real n) \<and>
         (real i / real n < 33 / 100 \<longleftrightarrow> 100 * i < 33 * n) \<and>
         (real i / real n < 66 / 100 \<longleftrightarrow> 100 * i < 66 * n)"
proof -
  have a: "real i / real n < 33 / 100 \<longleftrightarrow> 100 * i < 33 * n"
    using assms ratio_less [of n 100 i 33] by simp
  have b: "real i / real n < 66 / 100 \<longleftrightarrow> 100 * i < 66 * n"
    using assms ratio_less [of n 50 i 33] by simp
  have "(determineLinkPosition i n = Early \<longleftrightarrow> 100 * i < 33 * n) \<and>
        (determineLinkPosition i n = Middle \<longleftrightarrow> \<not> 100 * i < 33 * n \<and> 100 * i < 66 * n) \<and>
        (determineLinkPosition i n = Late \<longleftrightarrow> \<not> 100 * i < 66 * n)"
    using assms unfolding determineLinkPosition_def Let_def a b by auto
  then have thresholds:
    "(determineLinkPosition i n = Early \<longleftrightarrow> real i / real n < 33 / 100) \<and>
     (determineLinkPosition i n = Middle
        \<longleftrightarrow> 33 / 100 \<le> real i / real n \<and> real i / real n < 66 / 100) \<and>
     (determineLinkPosition i n = Late \<longleftrightarrow> 66 / 100 \<le> real i / real n) \<and>
     (real i / real n < 33 / 100 \<longleftrightarrow> 100 * i < 33 * n) \<and>
     (real i / real n < 66 / 100 \<longleftrightarrow> 100 * i < 66 * n)"
    unfolding not_less [symmetric] a b by simp
  have selected_tag:
    "l \<in> set (selectOptimalLinks (scoreLinks contentText keyword candidates) K) \<longrightarrow>
       (\<exists>j<length candidates.
          l = scoredLinkOf (tokenize contentText) (tokenize keyword) keyword
                (corpusIDF contentText candidates) j (length candidates) (candidates ! j) \<and>
          position l = determineLinkPosition j (length candidates))"
    using selectOptimalLinks_subset [of "scoreLinks contentText keyword candidates" K]
      pool_links_indexed [of l contentText keyword candidates]
    by blast
  from pool_positions [of contentText keyword candidates] selected_tag thresholds
  show ?thesis
    by (intro conjI) blast+
qed

theorem determineLinkPosition_thresholds_witness:
  "(0::nat) < 100 \<and>
   reactLink \<in> set (selectOptimalLinks (scoreLinks linkedContent ''react'' [reactCandidate]) 5) \<and>
   position reactLink = determineLinkPosition 0 (length [reactCandidate]) \<and>
   determineLinkPosition 33 100 = Middle \<and> determineLinkPosition 32 100 = Early \<and>
   determineLinkPosition 66 100 = Late"
proof -
  have "position reactLink = Early"
    by (simp add: reactLink_def)
  moreover have "determineLinkPosition 0 (Suc 0) = Early"
    by (simp add: determineLinkPosition_def)
  ultimately show ?thesis
    using determineLinkPosition_thresholds [of 100 linkedContent "''react''" "[reactCandidate]"
        reactLink 5 33]
      determineLinkPosition_thresholds [of 100 linkedContent "''react''" "[reactCandidate]"
        reactLink 5 32]
      determineLinkPosition_thresholds [of 100 linkedContent "''react''" "[reactCandidate]"
        reactLink 5 66]
    by (simp add: scoreLinks_example selectOptimalLinks_example)
qed

text \<open>
  The thresholds are not thirds: index 33 of a pool of 100 lies in the first third
  (\<open>33/100 < 1/3\<close>) and is tagged middle; index 33 of a pool of 50 lies in the second third
  (\<open>33/50 < 2/3\<close>) and is tagged late.
\<close>

theorem determineLinkPosition_thirds_counterexample:
  "real 33 / real 100 < 1 / 3 \<and> determineLinkPosition 33 100 = Middle \<and>
   real 33 / real 50 < 2 / 3 \<and> determineLinkPosition 33 50 = Late"
  by (simp add: determineLinkPosition_def)

section \<open>Properties of the inserter and the handler\<close>

lemma insertOne_count: "snd (insertOne start stop link st) \<le> snd st + 1"
  by (simp add: insertOne_def Let_def split: option.splits)

lemma fold_insertOne_count:
  "snd (fold (insertOne start stop) ls st) \<le> snd st + length ls"
proof (induction ls arbitrary: st)
  case Nil
  then show ?case by simp
next
  case (Cons l ls)
  have "snd (fold (insertOne start stop) (l # ls) st)
          \<le> snd (insertOne start stop l st) + length ls"
    using Cons.IH [of "insertOne start stop l st"] by simp
  with insertOne_count [of start stop l st] show ?case
    by simp
qed

lemma position_partition:
  "length (filter (\<lambda>l. position l = Early) ls) + length (filter (\<lambda>l. position l = Middle) ls)
     + length (filter (\<lambda>l. position l = Late) ls) = length ls"
proof (induction ls)
  case Nil
  then show ?case by simp
next
  case (Cons l ls)
  then show ?case by (cases "position l") simp_all
qed

text \<open>
  The number of links that the inserter splices in is at most the number of links it is
  given.
\<close>

lemma insertedCount_le_links:
  "snd (insertLinksIntoContent contentText ls) \<le> length ls"
proof -
  let ?ps = "splitParagraphs contentText"
  let ?n = "length ?ps"
  let ?e = "filter (\<lambda>l. position l = Early) ls"
  let ?m = "filter (\<lambda>l. position l = Middle) ls"
  let ?l = "filter (\<lambda>l. position l = Late) ls"
  let ?s1 = "fold (insertOne 0 (?n div 3)) ?e (?ps, 0)"
  let ?s2 = "fold (insertOne (?n div 3) (2 * ?n div 3)) ?m ?s1"
  let ?s3 = "fold (insertOne (2 * ?n div 3) ?n) ?l ?s2"
  have "snd (insertLinksIntoContent contentText ls) = snd ?s3"
    by (simp add: insertLinksIntoContent_def Let_def)
  moreover have "snd ?s1 \<le> length ?e"
    using fold_insertOne_count [of 0 "?n div 3" ?e "(?ps, 0)"] by simp
  moreover have "snd ?s2 \<le> snd ?s1 + length ?m"
    by (rule fold_insertOne_count)
  moreover have "snd ?s3 \<le> snd ?s2 + length ?l"
    by (rule fold_insertOne_count)
  ultimately show ?thesis
    using position_partition [of ls] by linarith
qed

text \<open>
  C3, as the code has it. A request that is no preflight and passes the validation, with
  a query that succeeds and returns no candidate (no rows, or \<open>null\<close>), gets a success
  response with no links and the content of the request unchanged. The response carries
  no field \<open>stats\<close>.
\<close>

theorem serve_empty_pool:
  assumes "method \<noteq> ''OPTIONS''"
    and "validateRequired body [''content'', ''pageId'', ''targetKeyword'']"
    and "\<not> queryError query"
    and "queryData query = None \<or> queryData query = Some []"
  shows "serve validateRequired method body query
           = JsonResponse \<lparr>success = True, links = [], responseContent = content body, stats = None\<rparr>"
  using assms by (auto simp: serve_def)

theorem serve_empty_pool_witness:
  "''POST'' \<noteq> ''OPTIONS'' \<and> acceptAll helloRequest [''content'', ''pageId'', ''targetKeyword''] \<and>
   serve acceptAll ''POST'' helloRequest \<lparr>queryData = Some [], queryError = False\<rparr>
     = JsonResponse \<lparr>success = True, links = [], responseContent = content helloRequest, stats = None\<rparr>"
  using serve_empty_pool [of "''POST''" acceptAll helloRequest "\<lparr>queryData = Some [], queryError = False\<rparr>"]
  by (simp add: acceptAll_def)

text \<open>
  The response for an empty pool, evaluated: there is no \<open>stats\<close> in it.
\<close>

theorem serve_empty_pool_stats_counterexample:
  "serve acceptAll ''POST'' helloRequest \<lparr>queryData = Some [], queryError = False\<rparr>
     = JsonResponse \<lparr>success = True, links = [], responseContent = ''<p>Hello</p>'', stats = None\<rparr>"
  by (simp add: serve_def acceptAll_def helloRequest_def)

lemma serve_links:
  assumes "serve validateRequired method body query = JsonResponse r" and "rl \<in> set (links r)"
  shows "\<exists>cands l. queryData query = Some cands \<and>
           l \<in> set (selectOptimalLinks (scoreLinks (content body) (targetKeyword body) cands)
                      (case maxLinks body of None \<Rightarrow> 5 | Some k \<Rightarrow> k)) \<and>
           rl = responseLink l"
  using assms by (auto simp: serve_def Let_def split: if_splits option.splits)

lemma serve_example:
  "serve acceptAll ''POST'' linkedRequest \<lparr>queryData = Some [reactCandidate], queryError = False\<rparr>
     = JsonResponse
         \<lparr>success = True, links = [responseLink reactLink], responseContent = linkedContent,
          stats = Some \<lparr>candidatesAnalyzed = 1, linksInserted = 1, avgRelevanceScore = 3 / 2\<rparr>\<rparr>"
proof -
  have "score reactLink = 3 / 2"
    by (simp add: reactLink_def)
  then show ?thesis
    by (simp add: serve_def acceptAll_def linkedRequest_def scoreLinks_example
        selectOptimalLinks_example insertLinksIntoContent_example)
qed

text \<open>
  C4. The handler reports \<open>stats.linksInserted\<close>. For the request evaluated above one
  link is selected and \<open>linksInserted\<close> is 1, the number of selected links, while the
  inserter has spliced in no link at all: its \<open>insertedCount\<close> is 0 and the content comes
  back unchanged.
\<close>

theorem linksInserted_counts_selected_links:
  "serve acceptAll ''POST'' linkedRequest \<lparr>queryData = Some [reactCandidate], queryError = False\<rparr>
     = JsonResponse
         \<lparr>success = True, links = [responseLink reactLink], responseContent = linkedContent,
          stats = Some \<lparr>candidatesAnalyzed = 1, linksInserted = 1, avgRelevanceScore = 3 / 2\<rparr>\<rparr> \<and>
   selectOptimalLinks (scoreLinks linkedContent ''react'' [reactCandidate]) 5 = [reactLink] \<and>
   insertLinksIntoContent linkedContent [reactLink] = (linkedContent, 0)"
  using serve_example
  by (simp add: scoreLinks_example selectOptimalLinks_example insertLinksIntoContent_example)

text \<open>
  C10. Every link of the scored pool has a non-empty list of matched terms: it comes from
  a candidate of the pool whose tokens share at least one token with the content, and its
  matched terms are exactly the shared tokens. The links that \<open>selectOptimalLinks\<close> returns
  are links of the pool, and every link of a response of the handler is the report of a
  link of the pool, so the same holds of them.
\<close>

theorem scored_links_have_matched_terms:
  "(l \<in> set (scoreLinks contentText keyword candidates) \<longrightarrow>
      matchedTerms l \<noteq> [] \<and>
      (\<exists>i<length candidates. url l = candidateUrl (candidates ! i) \<and>
         set (matchedTerms l)
           = set (tokenize contentText) \<inter> set (candidateDocument (candidates ! i)))) \<and>
   (l \<in> set (selectOptimalLinks (scoreLinks contentText keyword candidates) K) \<longrightarrow>
      l \<in> set (scoreLinks contentText keyword candidates) \<and> matchedTerms l \<noteq> []) \<and>
   (serve validateRequired method body query = JsonResponse r \<and> rl \<in> set (links r) \<longrightarrow>
      (\<exists>cands l'. queryData query = Some cands \<and>
         l' \<in> set (scoreLinks (content body) (targetKeyword body) cands) \<and>
         rl = responseLink l' \<and> matchedTerms l' \<noteq> []))"
proof -
  have pool: "l \<in> set (scoreLinks contentText keyword candidates) \<longrightarrow>
      matchedTerms l \<noteq> [] \<and>
      (\<exists>i<length candidates. url l = candidateUrl (candidates ! i) \<and>
         set (matchedTerms l)
           = set (tokenize contentText) \<inter> set (candidateDocument (candidates ! i)))"
    using pool_links_matched [of l contentText keyword candidates] by blast
  have chosen: "l \<in> set (selectOptimalLinks (scoreLinks contentText keyword candidates) K) \<longrightarrow>
      l \<in> set (scoreLinks contentText keyword candidates) \<and> matchedTerms l \<noteq> []"
    using selectOptimalLinks_subset [of "scoreLinks contentText keyword candidates" K]
      pool_links_matched [of l contentText keyword candidates]
    by blast
  have reported: "\<exists>cands l'. queryData query = Some cands \<and>
         l' \<in> set (scoreLinks (content body) (targetKeyword body) cands) \<and>
         rl = responseLink l' \<and> matchedTerms l' \<noteq> []"
    if "serve validateRequired method body query = JsonResponse r \<and> rl \<in> set (links r)"
  proof -
    from that obtain cands l' where c: "queryData query = Some cands"
      and sel: "l' \<in> set (selectOptimalLinks (scoreLinks (content body) (targetKeyword body) cands)
                        (case maxLinks body of None \<Rightarrow> 5 | Some k \<Rightarrow> k))"
      and rl: "rl = responseLink l'"
      using serve_links [of validateRequired "method" body query r rl] by blast
    from sel selectOptimalLinks_subset
    have p: "l' \<in> set (scoreLinks (content body) (targetKeyword body) cands)"
      by blast
    with pool_links_matched [of l' "content body" "targetKeyword body" cands]
    have "matchedTerms l' \<noteq> []"
      by simp
    with c p rl show ?thesis
      by blast
  qed
  from pool chosen reported show ?thesis
    by blast
qed

theorem scored_links_have_matched_terms_witness:
  "reactLink \<in> set (scoreLinks linkedContent ''react'' [reactCandidate]) \<and>
   reactLink \<in> set (selectOptimalLinks (scoreLinks linkedContent ''react'' [reactCandidate]) 5) \<and>
   serve acceptAll ''POST'' linkedRequest \<lparr>queryData = Some [reactCandidate], queryError = False\<rparr>
     = JsonResponse
         \<lparr>success = True, links = [responseLink reactLink], responseContent = linkedContent,
          stats = Some \<lparr>candidatesAnalyzed = 1, linksInserted = 1, avgRelevanceScore = 3 / 2\<rparr>\<rparr> \<and>
   matchedTerms reactLink = [''react''] \<and> matchedTerms reactLink \<noteq> []"
proof -
  have "matchedTerms reactLink = [''react'']"
    by (simp add: reactLink_def)
  with scored_links_have_matched_terms [of reactLink linkedContent "''react''" "[reactCandidate]" 5
      acceptAll "''POST''" linkedRequest
      "\<lparr>queryData = Some [reactCandidate], queryError = False\<rparr>"
      "\<lparr>success = True, links = [responseLink reactLink], responseContent = linkedContent,
        stats = Some \<lparr>candidatesAnalyzed = 1, linksInserted = 1, avgRelevanceScore = 3 / 2\<rparr>\<rparr>"
      "responseLink reactLink"]
    serve_example
  show ?thesis
    by (simp add: scoreLinks_example selectOptimalLinks_example)
qed

end
